theory Spec2Isabelle
  imports Main "HOL-Library.Monad_Syntax" "HOL-Library.Sublist"
begin

section \<open>Data model of the storage module (js/storage.js)\<close>

text \<open>
  Timestamps are the milliseconds that \<^verbatim>\<open>new Date(iso)\<close> yields for the stored ISO string;
  numbers are integers (the summaries hold counts, rounded percentages and seconds).
  A field that a JavaScript object may lack is an \<open>option\<close>. Strings are lists of
  code units below 256, which covers every literal of the source.
\<close>

type_synonym timestamp = int

record question =
  q_id :: "string option"
  q_text :: string
  q_type :: string
  q_options :: "string list"
  q_correct :: int
  q_explanation :: string
  q_difficulty :: "string option"
  q_category :: "string option"
  q_tags :: "string list"
  q_createdAt :: "timestamp option"
  q_updatedAt :: "timestamp option"
  q_importedAt :: "timestamp option"

record summary =
  sm_totalQuestions :: int
  sm_correctAnswers :: int
  sm_incorrectAnswers :: int
  sm_skipped :: int
  sm_percentage :: int
  sm_totalTime :: "int option"

record answer =
  a_question :: string
  a_options :: "string list"
  a_correctAnswer :: string
  a_userAnswer :: "string option"
  a_isCorrect :: bool
  a_timeSpent :: int
  a_explanation :: string

text \<open>A quiz run as the quiz module hands it over, before the ledger stamps it.\<close>

record quiz_run =
  run_summary :: summary
  run_questions :: "answer list"

record quiz_result =
  r_id :: string
  r_timestamp :: timestamp
  r_summary :: summary
  r_questions :: "answer list"

record collection =
  c_id :: "string option"
  c_name :: string
  c_questionIds :: "string list"
  c_createdAt :: "timestamp option"
  c_updatedAt :: "timestamp option"
  c_importedAt :: "timestamp option"

record import_log =
  l_id :: string
  l_timestamp :: timestamp
  l_questionsImported :: nat
  l_sourceVersion :: "string option"
  l_sourceDate :: "string option"

type_synonym settings = "(string \<times> string) list"

text \<open>
  The outcome of one call of \<^verbatim>\<open>localStorage.setItem\<close>: it stores the value, or throws
  \<^verbatim>\<open>QuotaExceededError\<close>, or throws something else.
\<close>

datatype write_outcome = WriteOk | QuotaExceeded | OtherFailure

text \<open>
  The persistent store as \<^verbatim>\<open>getItem\<close> decodes it (an absent key reads as its default,
  the empty list), together with what the environment decides: the outcome of the
  \<open>n\<close>-th write, and the values that the clock and \<^verbatim>\<open>generateId\<close> deliver at
  the \<open>n\<close>-th reading.
\<close>

record store =
  questions :: "question list"
  history :: "quiz_result list"
  collections :: "collection list"
  importlog :: "import_log list"
  settings_item :: "settings option"
  writes :: "nat \<Rightarrow> write_outcome"
  nwrites :: nat
  clock :: "nat \<Rightarrow> timestamp"
  rand :: "nat \<Rightarrow> string"
  tick :: nat

datatype item =
  Questions "question list"
  | History "quiz_result list"
  | Collections "collection list"
  | Imports "import_log list"
  | Settings settings

section \<open>Utility methods\<close>

definition generateId :: "store \<Rightarrow> string \<times> store" where
  "generateId st = (rand st (tick st), st\<lparr>tick := Suc (tick st)\<rparr>)"

definition newDate :: "store \<Rightarrow> timestamp \<times> store" where
  "newDate st = (clock st (tick st), st\<lparr>tick := Suc (tick st)\<rparr>)"

text \<open>JavaScript truthiness of an id: \<^verbatim>\<open>undefined\<close> and the empty string are falsy.\<close>

definition truthy :: "string option \<Rightarrow> bool" where
  "truthy i = (case i of None \<Rightarrow> False | Some s \<Rightarrow> s \<noteq> [])"

fun findIndex :: "('a \<Rightarrow> bool) \<Rightarrow> 'a list \<Rightarrow> nat option" where
  "findIndex P [] = None"
| "findIndex P (x # xs) =
     (if P x then Some 0 else map_option Suc (findIndex P xs))"

fun stored :: "item \<Rightarrow> store \<Rightarrow> store" where
  "stored (Questions v) st = st\<lparr>questions := v\<rparr>"
| "stored (History v) st = st\<lparr>history := v\<rparr>"
| "stored (Collections v) st = st\<lparr>collections := v\<rparr>"
| "stored (Imports v) st = st\<lparr>importlog := v\<rparr>"
| "stored (Settings v) st = st\<lparr>settings_item := Some v\<rparr>"

definition written :: "store \<Rightarrow> store" where
  "written st = st\<lparr>nwrites := Suc (nwrites st)\<rparr>"

definition getQuizHistory :: "store \<Rightarrow> nat \<Rightarrow> quiz_result list" where
  "getQuizHistory st limit = (if limit \<noteq> 0 then take limit (history st) else history st)"

text \<open>
  \<^verbatim>\<open>setItem\<close> and \<^verbatim>\<open>handleStorageFull\<close> call each other: a write that fails on quota
  runs the clean-up, whose own writes go through \<^verbatim>\<open>setItem\<close> again. Nothing bounds
  that recursion when the environment keeps refusing, so the function is partial:
  \<open>None\<close> is the call that never returns a value (in a browser the recursion ends in
  the engine's stack overflow), and the operations built on \<open>setItem\<close> pass it on.
  The body of \<^verbatim>\<open>handleStorageFull\<close> stands inline here; \<open>handleStorageFull\<close> below is
  the method itself. The toasts of the clean-up belong to the user interface and are
  left out.
\<close>

partial_function (option) setItem :: "store \<Rightarrow> item \<Rightarrow> (bool \<times> store) option" where
  "setItem st v =
     (case writes st (nwrites st) of
        WriteOk \<Rightarrow> Some (True, stored v (written st))
      | OtherFailure \<Rightarrow> Some (False, written st)
      | QuotaExceeded \<Rightarrow>
          do {
            let st1 = written st;
            let h = getQuizHistory st1 50;
            (_, st2) \<leftarrow> (if length h > 20 then setItem st1 (History (take 20 h))
                          else Some (True, st1));
            (_, st3) \<leftarrow> setItem st2 (Imports []);
            Some (False, st3)
          })"

definition handleStorageFull :: "store \<Rightarrow> store option" where
  "handleStorageFull st =
     do {
       let h = getQuizHistory st 50;
       (_, st2) \<leftarrow> (if length h > 20 then setItem st (History (take 20 h))
                     else Some (True, st));
       (_, st3) \<leftarrow> setItem st2 (Imports []);
       Some st3
     }"

section \<open>Questions and collections\<close>

definition getAllQuestions :: "store \<Rightarrow> question list" where
  "getAllQuestions st = questions st"

definition saveQuestion :: "store \<Rightarrow> question \<Rightarrow> (string option \<times> store) option" where
  "saveQuestion st question =
     (let qs = getAllQuestions st in
      if truthy (q_id question) then
        (case findIndex (\<lambda>q. q_id q = q_id question) qs of
           Some index \<Rightarrow>
             (let (t, st1) = newDate st in
              do {
                (_, st2) \<leftarrow> setItem st1 (Questions (qs[index := question\<lparr>q_updatedAt := Some t\<rparr>]));
                Some (q_id question, st2)
              })
         | None \<Rightarrow>
             (let (t, st1) = newDate st in
              do {
                (_, st2) \<leftarrow> setItem st1 (Questions (qs @ [question\<lparr>q_createdAt := Some t\<rparr>]));
                Some (q_id question, st2)
              }))
      else
        (let (g, st1) = generateId st;
             (t, st2) = newDate st1;
             question' = question\<lparr>q_id := Some g, q_createdAt := Some t\<rparr>
         in do {
              (_, st3) \<leftarrow> setItem st2 (Questions (qs @ [question']));
              Some (q_id question', st3)
            }))"

definition getQuestionById :: "store \<Rightarrow> string option \<Rightarrow> question option" where
  "getQuestionById st i = find (\<lambda>q. q_id q = i) (getAllQuestions st)"

definition getAllCollections :: "store \<Rightarrow> collection list" where
  "getAllCollections st = collections st"

definition saveCollection :: "store \<Rightarrow> collection \<Rightarrow> (string option \<times> store) option" where
  "saveCollection st collection =
     (let cs = getAllCollections st in
      if truthy (c_id collection) then
        (case findIndex (\<lambda>c. c_id c = c_id collection) cs of
           Some index \<Rightarrow>
             (let (t, st1) = newDate st in
              do {
                (_, st2) \<leftarrow> setItem st1 (Collections (cs[index := collection\<lparr>c_updatedAt := Some t\<rparr>]));
                Some (c_id collection, st2)
              })
         | None \<Rightarrow>
             do {
               (_, st2) \<leftarrow> setItem st (Collections cs);
               Some (c_id collection, st2)
             })
      else
        (let (g, st1) = generateId st;
             (t, st2) = newDate st1;
             collection' = collection\<lparr>c_id := Some g, c_createdAt := Some t\<rparr>
         in do {
              (_, st3) \<leftarrow> setItem st2 (Collections (cs @ [collection']));
              Some (c_id collection', st3)
            }))"

definition getCollectionById :: "store \<Rightarrow> string option \<Rightarrow> collection option" where
  "getCollectionById st i = find (\<lambda>c. c_id c = i) (getAllCollections st)"

section \<open>Quiz history\<close>

definition saveQuizResult :: "store \<Rightarrow> quiz_run \<Rightarrow> (string \<times> store) option" where
  "saveQuizResult st result =
     (let h = getQuizHistory st 50;
          (g, st1) = generateId st;
          (t, st2) = newDate st1;
          resultWithMeta = \<lparr>r_id = g, r_timestamp = t,
            r_summary = run_summary result, r_questions = run_questions result\<rparr>;
          h1 = resultWithMeta # h;
          h2 = (if length h1 > 100 then take 100 h1 else h1)
      in do {
           (_, st3) \<leftarrow> setItem st2 (History h2);
           Some (r_id resultWithMeta, st3)
         })"

text \<open>
  \<^verbatim>\<open>Math.round(a / b)\<close> for integers \<open>a\<close> and \<open>b > 0\<close>: the nearest integer, a tie
  going up.
\<close>

definition round_div :: "int \<Rightarrow> int \<Rightarrow> int" where
  "round_div a b = (2 * a + b) div (2 * b)"

record accumulator =
  acc_totalQuizzes :: int
  acc_totalQuestions :: int
  acc_totalScore :: int
  acc_bestScore :: int
  acc_totalTime :: int

record statistics =
  totalQuizzes :: int
  totalQuestions :: int
  averageScore :: int
  bestScore :: int
  totalTime :: int
  averageTime :: int

definition accumulate :: "accumulator \<Rightarrow> quiz_result \<Rightarrow> accumulator" where
  "accumulate acc result =
     (let acc1 = acc\<lparr>acc_totalQuizzes := acc_totalQuizzes acc + 1\<rparr>;
          acc2 = acc1\<lparr>acc_totalQuestions :=
                   acc_totalQuestions acc1 + sm_totalQuestions (r_summary result)\<rparr>;
          acc3 = acc2\<lparr>acc_totalScore := acc_totalScore acc2 + sm_percentage (r_summary result)\<rparr>;
          acc4 = acc3\<lparr>acc_totalTime := acc_totalTime acc3 +
                   (case sm_totalTime (r_summary result) of None \<Rightarrow> 0 | Some t \<Rightarrow> t)\<rparr>
      in if sm_percentage (r_summary result) > acc_bestScore acc4
         then acc4\<lparr>acc_bestScore := sm_percentage (r_summary result)\<rparr>
         else acc4)"

definition getQuizStatistics :: "store \<Rightarrow> statistics" where
  "getQuizStatistics st =
     (let h = getQuizHistory st 50 in
      if length h = 0 then
        \<lparr>totalQuizzes = 0, totalQuestions = 0, averageScore = 0, bestScore = 0,
         totalTime = 0, averageTime = 0\<rparr>
      else
        (let stats = foldl accumulate
               \<lparr>acc_totalQuizzes = 0, acc_totalQuestions = 0, acc_totalScore = 0,
                acc_bestScore = 0, acc_totalTime = 0\<rparr> h
         in \<lparr>totalQuizzes = acc_totalQuizzes stats,
             totalQuestions = acc_totalQuestions stats,
             averageScore = round_div (acc_totalScore stats) (acc_totalQuizzes stats),
             bestScore = acc_bestScore stats,
             totalTime = acc_totalTime stats,
             averageTime = (if acc_totalQuizzes stats > 0
                            then round_div (acc_totalTime stats) (acc_totalQuizzes stats)
                            else 0)\<rparr>))"

section \<open>Import and restore\<close>

record export_data =
  b_version :: "string option"
  b_exportDate :: "string option"
  b_questions :: "question list option"
  b_collections :: "collection list option"
  b_settings :: "settings option"
  b_history :: "quiz_result list option"

record import_options =
  mergeQuestions :: bool
  mergeCollections :: bool
  mergeHistory :: bool
  overwriteSettings :: bool

definition default_options :: import_options where
  "default_options =
     \<lparr>mergeQuestions = True, mergeCollections = True, mergeHistory = False,
      overwriteSettings = False\<rparr>"

datatype import_result = ImportSuccess nat | ImportFailure

text \<open>
  The body of the \<^verbatim>\<open>forEach\<close> that stamps an imported record: an id when it has
  none, and \<^verbatim>\<open>importedAt\<close>.
\<close>

definition stampQuestion :: "store \<Rightarrow> question \<Rightarrow> question \<times> store" where
  "stampQuestion st q =
     (let (q1, st1) = (if \<not> truthy (q_id q)
                       then (let (g, s) = generateId st in (q\<lparr>q_id := Some g\<rparr>, s))
                       else (q, st));
          (t, st2) = newDate st1
      in (q1\<lparr>q_importedAt := Some t\<rparr>, st2))"

fun stampQuestions :: "store \<Rightarrow> question list \<Rightarrow> question list \<times> store" where
  "stampQuestions st [] = ([], st)"
| "stampQuestions st (q # qs) =
     (let (q', st1) = stampQuestion st q;
          (qs', st2) = stampQuestions st1 qs
      in (q' # qs', st2))"

definition stampCollection :: "store \<Rightarrow> collection \<Rightarrow> collection \<times> store" where
  "stampCollection st c =
     (let (c1, st1) = (if \<not> truthy (c_id c)
                       then (let (g, s) = generateId st in (c\<lparr>c_id := Some g\<rparr>, s))
                       else (c, st));
          (t, st2) = newDate st1
      in (c1\<lparr>c_importedAt := Some t\<rparr>, st2))"

fun stampCollections :: "store \<Rightarrow> collection list \<Rightarrow> collection list \<times> store" where
  "stampCollections st [] = ([], st)"
| "stampCollections st (c # cs) =
     (let (c', st1) = stampCollection st c;
          (cs', st2) = stampCollections st1 cs
      in (c' # cs', st2))"

text \<open>
  The records that \<^verbatim>\<open>filter\<close> selects are the bundle's own objects, so stamping them
  changes the bundle in place: \<open>writeBack P xs ys\<close> is the bundle's array afterwards,
  the selected elements of \<open>xs\<close> replaced in order by their stamped versions \<open>ys\<close>.
\<close>

fun writeBack :: "('a \<Rightarrow> bool) \<Rightarrow> 'a list \<Rightarrow> 'a list \<Rightarrow> 'a list" where
  "writeBack P [] ys = []"
| "writeBack P (x # xs) ys =
     (if P x then (case ys of [] \<Rightarrow> x # writeBack P xs [] | y # ys' \<Rightarrow> y # writeBack P xs ys')
      else x # writeBack P xs ys)"

definition importQuestions ::
  "store \<Rightarrow> export_data \<Rightarrow> import_options \<Rightarrow> (nat \<times> export_data \<times> store) option" where
  "importQuestions st d opts =
     (case b_questions d of
        None \<Rightarrow> Some (0, d, st)
      | Some dqs \<Rightarrow>
          if mergeQuestions opts then
            (let existingQuestions = getAllQuestions st;
                 existingIds = set (map q_id existingQuestions);
                 newQuestions = filter (\<lambda>q. q_id q \<notin> existingIds) dqs;
                 (stamped, st1) = stampQuestions st newQuestions;
                 allQuestions = existingQuestions @ stamped
             in do {
                  (_, st2) \<leftarrow> setItem st1 (Questions allQuestions);
                  Some (length stamped,
                        d\<lparr>b_questions := Some (writeBack (\<lambda>q. q_id q \<notin> existingIds) dqs stamped)\<rparr>,
                        st2)
                })
          else
            (let (stamped, st1) = stampQuestions st dqs
             in do {
                  (_, st2) \<leftarrow> setItem st1 (Questions stamped);
                  Some (length stamped, d\<lparr>b_questions := Some stamped\<rparr>, st2)
                }))"

definition importCollections ::
  "store \<Rightarrow> export_data \<Rightarrow> import_options \<Rightarrow> (export_data \<times> store) option" where
  "importCollections st d opts =
     (case b_collections d of
        None \<Rightarrow> Some (d, st)
      | Some dcs \<Rightarrow>
          if mergeCollections opts then
            (let existingCollections = getAllCollections st;
                 existingIds = set (map c_id existingCollections);
                 newCollections = filter (\<lambda>c. c_id c \<notin> existingIds) dcs;
                 (stamped, st1) = stampCollections st newCollections;
                 allCollections = existingCollections @ stamped
             in do {
                  (_, st2) \<leftarrow> setItem st1 (Collections allCollections);
                  Some (d\<lparr>b_collections :=
                            Some (writeBack (\<lambda>c. c_id c \<notin> existingIds) dcs stamped)\<rparr>, st2)
                })
          else Some (d, st))"

text \<open>
  The history filter keeps an entry when it is the first of its id in the array; the sort
  is the stable sort of the language, by timestamp, latest first.
\<close>

definition uniqueById :: "quiz_result list \<Rightarrow> quiz_result list" where
  "uniqueById arr =
     map fst (filter (\<lambda>(item, index). findIndex (\<lambda>t. r_id t = r_id item) arr = Some index)
                (zip arr [0..<length arr]))"

definition sortLatestFirst :: "quiz_result list \<Rightarrow> quiz_result list" where
  "sortLatestFirst xs = sort_key (\<lambda>r. - r_timestamp r) xs"

definition importHistory :: "store \<Rightarrow> export_data \<Rightarrow> import_options \<Rightarrow> store option" where
  "importHistory st d opts =
     (case b_history d of
        None \<Rightarrow> Some st
      | Some dh \<Rightarrow>
          if mergeHistory opts then
            (let existingHistory = getQuizHistory st 50;
                 allHistory = existingHistory @ dh;
                 uniqueHistory = sortLatestFirst (uniqueById allHistory)
             in do {
                  (_, st1) \<leftarrow> setItem st (History (take 100 uniqueHistory));
                  Some st1
                })
          else Some st)"

definition importSettings :: "store \<Rightarrow> export_data \<Rightarrow> import_options \<Rightarrow> store option" where
  "importSettings st d opts =
     (case b_settings d of
        None \<Rightarrow> Some st
      | Some s \<Rightarrow>
          if overwriteSettings opts then
            do { (_, st1) \<leftarrow> setItem st (Settings s); Some st1 }
          else Some st)"

definition logImport :: "store \<Rightarrow> export_data \<Rightarrow> nat \<Rightarrow> store option" where
  "logImport st d importedCount =
     (let logs = importlog st;
          (g, st1) = generateId st;
          (t, st2) = newDate st1;
          logs1 = \<lparr>l_id = g, l_timestamp = t, l_questionsImported = importedCount,
                   l_sourceVersion = b_version d, l_sourceDate = b_exportDate d\<rparr> # logs;
          logs2 = (if length logs1 > 20 then take 20 logs1 else logs1)
      in do { (_, st3) \<leftarrow> setItem st2 (Imports logs2); Some st3 })"

text \<open>
  \<^verbatim>\<open>importData\<close> runs its four sections in the order of the source and logs the import.
  A \<^verbatim>\<open>null\<close> bundle makes the first property access throw inside the \<^verbatim>\<open>try\<close>, which
  the \<^verbatim>\<open>catch\<close> turns into the failure result. The function returns the bundle as well,
  as the stamping has left it.
\<close>

definition importData ::
  "store \<Rightarrow> export_data option \<Rightarrow> import_options \<Rightarrow> (import_result \<times> export_data option \<times> store) option" where
  "importData st dat opts =
     (case dat of
        None \<Rightarrow> Some (ImportFailure, None, st)
      | Some d \<Rightarrow>
          do {
            (importedCount, d1, st1) \<leftarrow> importQuestions st d opts;
            (d2, st2) \<leftarrow> importCollections st1 d1 opts;
            st3 \<leftarrow> importHistory st2 d2 opts;
            st4 \<leftarrow> importSettings st3 d2 opts;
            st5 \<leftarrow> logImport st4 d2 importedCount;
            Some (ImportSuccess importedCount, Some d2, st5)
          })"

record backup =
  bk_version :: "string option"
  bk_timestamp :: "string option"
  bk_data :: "export_data option"

datatype exn = Error string

definition invalid_backup :: string where
  "invalid_backup = ''Dados de backup inv'' @ [CHR 0xE1] @ ''lidos''"

definition restore_options :: import_options where
  "restore_options =
     \<lparr>mergeQuestions = False, mergeCollections = False, mergeHistory = True,
      overwriteSettings = True\<rparr>"

text \<open>
  \<^verbatim>\<open>restoreBackup\<close> throws on a missing backup or a backup without data; the result is
  then \<open>Inl\<close> of the error, beside the store as the call leaves it.
\<close>

definition restoreBackup ::
  "store \<Rightarrow> backup option \<Rightarrow> ((exn + import_result) \<times> store) option" where
  "restoreBackup st backupData =
     (case backupData of
        None \<Rightarrow> Some (Inl (Error invalid_backup), st)
      | Some b \<Rightarrow>
          (case bk_data b of
             None \<Rightarrow> Some (Inl (Error invalid_backup), st)
           | Some d \<Rightarrow>
               do {
                 (result, _, st1) \<leftarrow> importData st (Some d) restore_options;
                 Some (Inr result, st1)
               }))"

section \<open>The text import parser (js/creator.js)\<close>

text \<open>
  The white space of \<^verbatim>\<open>\s\<close> and of \<^verbatim>\<open>trim\<close> among the code units below 256: tab, line
  feed, vertical tab, form feed, carriage return, space and the no-break space.
\<close>

definition is_space :: "char \<Rightarrow> bool" where
  "is_space c = (c \<in> set [CHR 0x09, CHR 0x0A, CHR 0x0B, CHR 0x0C, CHR 0x0D, CHR 0x20, CHR 0xA0])"

definition trim :: "string \<Rightarrow> string" where
  "trim s = rev (dropWhile is_space (rev (dropWhile is_space s)))"

definition is_letter :: "char \<Rightarrow> bool" where
  "is_letter c =
     (let n = (of_char c :: nat) in (65 \<le> n \<and> n \<le> 90) \<or> (97 \<le> n \<and> n \<le> 122))"

text \<open>
  \<^verbatim>\<open>toLowerCase\<close> on code units below 256 maps the ASCII capitals and the Latin-1
  capitals (all of \<open>0xC0\<close> to \<open>0xDE\<close> but the multiplication sign) 32 places up.
\<close>

definition toLowerChar :: "char \<Rightarrow> char" where
  "toLowerChar c =
     (let n = (of_char c :: nat)
      in if (65 \<le> n \<and> n \<le> 90) \<or> (192 \<le> n \<and> n \<le> 222 \<and> n \<noteq> 215)
         then char_of (n + 32) else c)"

definition toLowerCase :: "string \<Rightarrow> string" where
  "toLowerCase s = map toLowerChar s"

text \<open>\<^verbatim>\<open>toUpperCase\<close> is only ever applied to one ASCII letter.\<close>

definition toUpperLetter :: "char \<Rightarrow> char" where
  "toUpperLetter c =
     (let n = (of_char c :: nat) in if 97 \<le> n \<and> n \<le> 122 then char_of (n - 32) else c)"

fun split_on :: "char \<Rightarrow> string \<Rightarrow> string list" where
  "split_on c [] = [[]]"
| "split_on c (x # xs) =
     (if x = c then [] # split_on c xs
      else (case split_on c xs of [] \<Rightarrow> [[x]] | l # ls \<Rightarrow> (x # l) # ls))"

text \<open>
  \<^verbatim>\<open>text.split(/\n\s*\n/)\<close>: at a line feed the pattern matches when the white space
  that follows holds another line feed, and the greedy \<^verbatim>\<open>\s*\<close> makes the match end
  at the last line feed of that white space. \<open>cur\<close> is the block read so far, reversed.
\<close>

fun splitBlocks :: "string \<Rightarrow> string \<Rightarrow> string list" where
  "splitBlocks cur [] = [rev cur]"
| "splitBlocks cur (c # cs) =
     (let ws = takeWhile is_space cs in
      if c = CHR 0x0A \<and> CHR 0x0A \<in> set ws
      then rev cur #
           splitBlocks [] (drop (length (dropWhile (\<lambda>x. x \<noteq> CHR 0x0A) (rev ws))) cs)
      else splitBlocks (c # cur) cs)"

definition isOptionLine :: "string \<Rightarrow> bool" where
  "isOptionLine line =
     (case line of a # b # _ \<Rightarrow> is_letter a \<and> b = CHR '')'' | _ \<Rightarrow> False)"

definition isAnswerLine :: "string \<Rightarrow> bool" where
  "isAnswerLine line =
     (prefix ''answer:'' (toLowerCase line) \<or> prefix ''resposta:'' (toLowerCase line))"

definition isExplanationLine :: "string \<Rightarrow> bool" where
  "isExplanationLine line =
     (prefix ''explanation:'' (toLowerCase line) \<or>
      prefix (''explica'' @ [CHR 0xE7, CHR 0xE3] @ ''o:'') (toLowerCase line))"

text \<open>\<^verbatim>\<open>line.substring(line.indexOf(':') + 1)\<close>; without a colon the index is \<open>-1\<close>.\<close>

definition afterColon :: "string \<Rightarrow> string" where
  "afterColon line =
     (case findIndex (\<lambda>c. c = CHR '':'') line of
        None \<Rightarrow> line
      | Some i \<Rightarrow> drop (Suc i) line)"

text \<open>One turn of the loop over the lines after the first.\<close>

definition scanLine ::
  "string list \<times> string \<times> string \<Rightarrow> string \<Rightarrow> string list \<times> string \<times> string" where
  "scanLine acc line =
     (case acc of (opts, answerLine, explanation) \<Rightarrow>
        if isOptionLine line then (opts @ [line], answerLine, explanation)
        else if isAnswerLine line then (opts, line, explanation)
        else if isExplanationLine line then (opts, answerLine, trim (afterColon line))
        else (opts, answerLine, explanation))"

definition no_explanation :: string where
  "no_explanation = ''Sem explica'' @ [CHR 0xE7, CHR 0xE3] @ ''o fornecida.''"

definition parseSingleQuestionFromText :: "string \<Rightarrow> question option" where
  "parseSingleQuestionFromText block =
     (let lines = filter (\<lambda>l. l \<noteq> []) (map trim (split_on CHR 0x0A block)) in
      if length lines < 3 then None
      else
        (case foldl scanLine ([], [], []) (tl lines) of
           (opts, answerLine, explanation) \<Rightarrow>
             if length opts < 2 \<or> answerLine = [] then None
             else
               (let correctIndex =
                      (case find is_letter answerLine of
                         None \<Rightarrow> - 1
                       | Some l \<Rightarrow> int (of_char (toUpperLetter l)) - 65)
                in if correctIndex < 0 \<or> correctIndex \<ge> int (length opts) then None
                   else Some \<lparr>q_id = None, q_text = hd lines, q_type = ''multiple'',
                          q_options = opts, q_correct = correctIndex,
                          q_explanation =
                            (if explanation = [] then no_explanation else explanation),
                          q_difficulty = None, q_category = None, q_tags = [],
                          q_createdAt = None, q_updatedAt = None, q_importedAt = None\<rparr>)))"

text \<open>The creator's own \<^verbatim>\<open>generateId\<close> prefixes the varying part with \<^verbatim>\<open>q_\<close>.\<close>

definition creatorGenerateId :: "store \<Rightarrow> string \<times> store" where
  "creatorGenerateId st = (''q_'' @ rand st (tick st), st\<lparr>tick := Suc (tick st)\<rparr>)"

fun parseBlocks :: "store \<Rightarrow> string list \<Rightarrow> question list \<times> store" where
  "parseBlocks st [] = ([], st)"
| "parseBlocks st (block # blocks) =
     (case parseSingleQuestionFromText block of
        None \<Rightarrow> parseBlocks st blocks
      | Some q \<Rightarrow>
          (let (g, st1) = creatorGenerateId st;
               (t, st2) = newDate st1;
               q' = q\<lparr>q_id := Some g, q_createdAt := Some t,
                      q_difficulty := Some ''medium'', q_category := Some ''Importada''\<rparr>;
               (rest, st3) = parseBlocks st2 blocks
           in (q' # rest, st3)))"

definition parseMultipleQuestionsFromText :: "store \<Rightarrow> string \<Rightarrow> question list \<times> store" where
  "parseMultipleQuestionsFromText st txt = parseBlocks st (splitBlocks [] txt)"

section \<open>The offline worker (sw.js)\<close>

record url =
  u_protocol :: string
  u_host :: string
  u_pathname :: string
  u_search :: string

record request =
  rq_method :: string
  rq_url :: url
  rq_mode :: string

record response =
  rs_status :: nat
  rs_statusText :: string
  rs_body :: string
  rs_vary :: "string list"

text \<open>
  \<open>rs_vary\<close> holds the field values of the response's \<^verbatim>\<open>Vary\<close> header. A request
  stands for its URL, method and mode: it carries no headers, so a lookup compares URLs.
  A fetch resolves with a response, of whatever status, or rejects.
\<close>

datatype fetch_outcome = Resolved response | Rejected

text \<open>
  What the platform decides for the worker: the outcome of \<^verbatim>\<open>fetch\<close> for a request,
  whether \<^verbatim>\<open>caches.open\<close> of a name resolves, and whether the cache storage has room
  for a write.
\<close>

record platform =
  pf_fetch :: "request \<Rightarrow> fetch_outcome"
  pf_opens :: "string \<Rightarrow> bool"
  pf_accepts :: "request \<Rightarrow> response \<Rightarrow> bool"

type_synonym cache = "(url \<times> response) list"

type_synonym caches = "(string \<times> cache) list"

definition STATIC_CACHE_NAME :: string where
  "STATIC_CACHE_NAME = ''quiz-pro-static-v1.0.0''"

definition DYNAMIC_CACHE_NAME :: string where
  "DYNAMIC_CACHE_NAME = ''quiz-pro-dynamic-v1.0.0''"

definition STATIC_FILES :: "string list" where
  "STATIC_FILES =
     [''/'', ''/index.html'', ''/styles.css'', ''/js/app.js'', ''/js/quiz.js'',
      ''/js/creator.js'', ''/js/storage.js'', ''/js/stats.js'', ''/js/pwa.js'',
      ''/manifest.json'', ''/icon-192.png'', ''/icon-512.png'',
      ''https://cdnjs.cloudflare.com/ajax/libs/font-awesome/6.4.0/css/all.min.css'']"

definition DYNAMIC_FILES :: "string list" where
  "DYNAMIC_FILES = [''/api/'', ''/data/'', ''/assets/'']"

definition NETWORK_ONLY :: "string list" where
  "NETWORK_ONLY = [''/api/sync'', ''/api/update'']"

definition rs_ok :: "response \<Rightarrow> bool" where
  "rs_ok r = (200 \<le> rs_status r \<and> rs_status r \<le> 299)"

text \<open>
  The cache storage is the list of its named caches in the order of their creation; a
  cache holds one response per URL. \<^verbatim>\<open>caches.match\<close> asks each cache in turn, and is
  taken to settle: it resolves with the copy it finds or with nothing.
\<close>

definition cache_match :: "cache \<Rightarrow> request \<Rightarrow> response option" where
  "cache_match c request = map_of c (rq_url request)"

fun caches_match :: "caches \<Rightarrow> request \<Rightarrow> response option" where
  "caches_match [] request = None"
| "caches_match ((name, c) # cs) request =
     (case cache_match c request of
        Some r \<Rightarrow> Some r
      | None \<Rightarrow> caches_match cs request)"

definition caches_keys :: "caches \<Rightarrow> string list" where
  "caches_keys cs = map fst cs"

definition caches_delete :: "string \<Rightarrow> caches \<Rightarrow> caches" where
  "caches_delete name cs = filter (\<lambda>(n, c). n \<noteq> name) cs"

text \<open>A \<^verbatim>\<open>caches.open\<close> that resolves creates the cache if there is none of that name.\<close>

definition caches_open :: "string \<Rightarrow> caches \<Rightarrow> caches" where
  "caches_open name cs = (if name \<in> set (caches_keys cs) then cs else cs @ [(name, [])])"

text \<open>
  \<^verbatim>\<open>cache.put\<close> rejects a partial response (status 206) and a response whose
  \<^verbatim>\<open>Vary\<close> header holds \<^verbatim>\<open>*\<close>, and it fails when the storage has no room. The worker
  does not await it, so a failed put leaves the cache as it was and nothing else happens.
\<close>

definition cache_put :: "platform \<Rightarrow> request \<Rightarrow> response \<Rightarrow> cache \<Rightarrow> cache" where
  "cache_put env request r c =
     (if rs_status r = 206 \<or> ''*'' \<in> set (rs_vary r) \<or> \<not> pf_accepts env request r then c
      else filter (\<lambda>(u, x). u \<noteq> rq_url request) c @ [(rq_url request, r)])"

text \<open>The cache storage after \<^verbatim>\<open>caches.open(name)\<close> has resolved and the put is done.\<close>

definition caches_put ::
  "platform \<Rightarrow> string \<Rightarrow> request \<Rightarrow> response \<Rightarrow> caches \<Rightarrow> caches" where
  "caches_put env name request r cs =
     map (\<lambda>(n, c). if n = name then (n, cache_put env request r c) else (n, c))
       (caches_open name cs)"

definition offline_unavailable :: response where
  "offline_unavailable =
     \<lparr>rs_status = 503, rs_statusText = ''Service Unavailable'',
      rs_body = ''Offline - Resource not available'', rs_vary = []\<rparr>"

definition offline_response :: response where
  "offline_response =
     \<lparr>rs_status = 503, rs_statusText = ''Service Unavailable'', rs_body = ''Offline'',
      rs_vary = []\<rparr>"

text \<open>
  The strategies take the cache storage and the platform and return the response with
  the cache storage as the call leaves it, the pending \<^verbatim>\<open>cache.put\<close> settled. In each,
  \<open>caught\<close> is what the \<^verbatim>\<open>catch\<close> block returns: the \<^verbatim>\<open>try\<close> block holds the fetch and
  the awaited \<^verbatim>\<open>caches.open\<close>, so a rejection of either one ends there.
\<close>

definition cacheFirst :: "caches \<Rightarrow> platform \<Rightarrow> request \<Rightarrow> response \<times> caches" where
  "cacheFirst cs env request =
     (case caches_match cs request of
        Some cachedResponse \<Rightarrow> (cachedResponse, cs)
      | None \<Rightarrow>
          (let caught = (offline_unavailable, cs) in
           case pf_fetch env request of
             Resolved networkResponse \<Rightarrow>
               if rs_ok networkResponse then
                 (if pf_opens env STATIC_CACHE_NAME
                  then (networkResponse,
                        caches_put env STATIC_CACHE_NAME request networkResponse cs)
                  else caught)
               else (networkResponse, cs)
           | Rejected \<Rightarrow> caught))"

definition networkFirst :: "caches \<Rightarrow> platform \<Rightarrow> request \<Rightarrow> response \<times> caches" where
  "networkFirst cs env request =
     (let caught = (case caches_match cs request of
                      Some cachedResponse \<Rightarrow> (cachedResponse, cs)
                    | None \<Rightarrow> (offline_unavailable, cs)) in
      case pf_fetch env request of
        Resolved networkResponse \<Rightarrow>
          if rs_ok networkResponse then
            (if pf_opens env DYNAMIC_CACHE_NAME
             then (networkResponse,
                   caches_put env DYNAMIC_CACHE_NAME request networkResponse cs)
             else caught)
          else (networkResponse, cs)
      | Rejected \<Rightarrow> caught)"

text \<open>
  With nothing cached and the network down, a navigation is answered with whatever
  \<^verbatim>\<open>caches.match('/')\<close> finds, which may be nothing. The refresh behind a cached
  response swallows its own failures.
\<close>

definition cacheFirstWithRefresh ::
  "caches \<Rightarrow> platform \<Rightarrow> request \<Rightarrow> response option \<times> caches" where
  "cacheFirstWithRefresh cs env request =
     (case caches_match cs request of
        Some cachedResponse \<Rightarrow>
          (Some cachedResponse,
           case pf_fetch env request of
             Resolved networkResponse \<Rightarrow>
               if rs_ok networkResponse \<and> pf_opens env DYNAMIC_CACHE_NAME
               then caches_put env DYNAMIC_CACHE_NAME request networkResponse cs else cs
           | Rejected \<Rightarrow> cs)
      | None \<Rightarrow>
          (let caught =
                 (if rq_mode request = ''navigate''
                  then (caches_match cs
                          (request\<lparr>rq_url :=
                             (rq_url request)\<lparr>u_pathname := ''/'', u_search := []\<rparr>\<rparr>),
                        cs)
                  else (Some offline_response, cs)) in
           case pf_fetch env request of
             Resolved networkResponse \<Rightarrow>
               if rs_ok networkResponse then
                 (if pf_opens env DYNAMIC_CACHE_NAME
                  then (Some networkResponse,
                        caches_put env DYNAMIC_CACHE_NAME request networkResponse cs)
                  else caught)
               else (Some networkResponse, cs)
           | Rejected \<Rightarrow> caught))"

text \<open>
  What the fetch listener answers with: \<open>None\<close> when it returns without
  \<^verbatim>\<open>respondWith\<close>, else the settled promise (\<open>None\<close> inside for a rejection or an
  undefined response) and the cache storage. The file registers a second fetch listener
  further down; its \<^verbatim>\<open>respondWith\<close> comes after this one's and cannot replace the
  answer.
\<close>

definition onFetch ::
  "caches \<Rightarrow> platform \<Rightarrow> request \<Rightarrow> (response option \<times> caches) option" where
  "onFetch cs env request =
     (let pathname = u_pathname (rq_url request) in
      if rq_method request \<noteq> ''GET'' then None
      else if \<not> prefix ''http'' (u_protocol (rq_url request)) then None
      else if list_ex (\<lambda>pattern. prefix pattern pathname) NETWORK_ONLY
      then Some (case pf_fetch env request of Resolved r \<Rightarrow> Some r | Rejected \<Rightarrow> None, cs)
      else if list_ex (\<lambda>file. pathname = file \<or> suffix file pathname) STATIC_FILES
      then Some (case cacheFirst cs env request of (r, cs') \<Rightarrow> (Some r, cs'))
      else if list_ex (\<lambda>pattern. prefix pattern pathname) DYNAMIC_FILES
      then Some (case networkFirst cs env request of (r, cs') \<Rightarrow> (Some r, cs'))
      else Some (cacheFirstWithRefresh cs env request))"

text \<open>The clean-up of the activate listener, over the names \<^verbatim>\<open>caches.keys()\<close> lists.\<close>

definition activate :: "caches \<Rightarrow> caches" where
  "activate cs =
     foldl (\<lambda>acc cacheName.
              if cacheName \<noteq> STATIC_CACHE_NAME \<and> cacheName \<noteq> DYNAMIC_CACHE_NAME \<and>
                 prefix ''quiz-pro-'' cacheName
              then caches_delete cacheName acc else acc)
       cs (caches_keys cs)"

section \<open>Concrete inputs\<close>

text \<open>
  An empty store in an environment where every write succeeds, the clock counts and
  the generated ids are pairwise distinct.
\<close>

definition fresh_store :: store where
  "fresh_store =
     \<lparr>questions = [], history = [], collections = [], importlog = [], settings_item = None,
      writes = (\<lambda>n. WriteOk), nwrites = 0, clock = (\<lambda>n. int n),
      rand = (\<lambda>n. ''id'' @ replicate n CHR ''x''), tick = 0\<rparr>"

text \<open>The text of the specification's parser example; the lines end in a line feed.\<close>

definition spec_example :: string where
  "spec_example =
     ''Capital of Brazil?'' @ [CHR 0x0A] @ ''A) SP'' @ [CHR 0x0A] @ ''B) RJ'' @ [CHR 0x0A] @
     ''C) Brasilia'' @ [CHR 0x0A] @ ''Resposta: C'' @ [CHR 0x0A] @
     ''Explica'' @ [CHR 0xE7, CHR 0xE3] @ ''o: test''"

definition geography :: collection where
  "geography =
     \<lparr>c_id = Some ''c1'', c_name = ''Geography'', c_questionIds = [''q1''],
      c_createdAt = None, c_updatedAt = None, c_importedAt = None\<rparr>"

definition empty_backup :: backup where
  "empty_backup = \<lparr>bk_version = Some ''1.0'', bk_timestamp = None, bk_data = None\<rparr>"

definition capital_question :: question where
  "capital_question =
     \<lparr>q_id = Some ''q1'', q_text = ''Capital of Brazil?'', q_type = ''multiple'',
      q_options = [''A) SP'', ''B) RJ'', ''C) Brasilia''], q_correct = 2,
      q_explanation = ''test'', q_difficulty = Some ''easy'',
      q_category = Some ''Geography'', q_tags = [],
      q_createdAt = None, q_updatedAt = None, q_importedAt = None\<rparr>"

definition some_summary :: "int \<Rightarrow> summary" where
  "some_summary p =
     \<lparr>sm_totalQuestions = 10, sm_correctAnswers = p div 10,
      sm_incorrectAnswers = 10 - p div 10, sm_skipped = 0, sm_percentage = p,
      sm_totalTime = Some 60\<rparr>"

definition some_run :: quiz_run where
  "some_run = \<lparr>run_summary = some_summary 50, run_questions = []\<rparr>"

definition failed_result :: "nat \<Rightarrow> quiz_result" where
  "failed_result n =
     \<lparr>r_id = ''id'' @ replicate n CHR ''x'', r_timestamp = 100 - int n,
      r_summary = some_summary 0, r_questions = []\<rparr>"

definition perfect_result :: quiz_result where
  "perfect_result =
     \<lparr>r_id = ''first'', r_timestamp = 0, r_summary = some_summary 100, r_questions = []\<rparr>"

text \<open>
  A ledger of 51 results, the newest first: fifty runs without a correct answer and,
  before them, one perfect run.
\<close>

definition long_history_store :: store where
  "long_history_store =
     fresh_store\<lparr>history := map failed_result [0..<50] @ [perfect_result]\<rparr>"

text \<open>A store whose next write fails on quota, every later write succeeding.\<close>

definition full_store :: store where
  "full_store = fresh_store\<lparr>writes := (\<lambda>n. if n = 0 then QuotaExceeded else WriteOk)\<rparr>"

text \<open>
  A store with 25 results, the newest first, whose first write fails on quota, whose
  next two succeed, and whose every later one fails on quota again.
\<close>

definition later_full_store :: store where
  "later_full_store =
     fresh_store\<lparr>writes := (\<lambda>n. if n = 0 \<or> 3 \<le> n then QuotaExceeded else WriteOk),
                 history := map failed_result [0..<25]\<rparr>"

text \<open>A store whose every write fails on quota.\<close>

definition jammed_store :: store where
  "jammed_store = fresh_store\<lparr>writes := (\<lambda>n. QuotaExceeded)\<rparr>"

definition history_collection :: collection where
  "history_collection =
     \<lparr>c_id = Some ''c2'', c_name = ''History'', c_questionIds = [],
      c_createdAt = None, c_updatedAt = None, c_importedAt = None\<rparr>"

definition sample_backup :: backup where
  "sample_backup =
     \<lparr>bk_version = Some ''1.0'', bk_timestamp = None,
      bk_data = Some \<lparr>b_version = Some ''1.0'', b_exportDate = None,
        b_questions = Some [capital_question], b_collections = Some [history_collection],
        b_settings = None, b_history = Some [perfect_result]\<rparr>\<rparr>"

definition geography_store :: store where
  "geography_store = fresh_store\<lparr>collections := [geography]\<rparr>"

text \<open>Export data with two records of one id, and with a record that has no id.\<close>

definition twins :: export_data where
  "twins =
     \<lparr>b_version = Some ''1.0'', b_exportDate = None,
      b_questions = Some [capital_question, capital_question\<lparr>q_text := ''Capital of Peru?''\<rparr>],
      b_collections = None, b_settings = None, b_history = None\<rparr>"

definition mixed :: export_data where
  "mixed =
     \<lparr>b_version = Some ''1.0'', b_exportDate = None,
      b_questions = Some [capital_question,
        capital_question\<lparr>q_id := Some ''q2'', q_text := ''Capital of Peru?''\<rparr>,
        capital_question\<lparr>q_id := None, q_text := ''Capital of Chile?''\<rparr>],
      b_collections = None, b_settings = None, b_history = None\<rparr>"

definition anonymous :: export_data where
  "anonymous =
     \<lparr>b_version = Some ''1.0'', b_exportDate = None,
      b_questions = Some [capital_question\<lparr>q_id := None\<rparr>],
      b_collections = None, b_settings = None, b_history = None\<rparr>"

definition one_question_store :: store where
  "one_question_store = fresh_store\<lparr>questions := [capital_question]\<rparr>"

definition api_request :: request where
  "api_request =
     \<lparr>rq_method = ''GET'',
      rq_url = \<lparr>u_protocol = ''https:'', u_host = ''quiz.example'',
                u_pathname = ''/api/questions'', u_search = []\<rparr>,
      rq_mode = ''cors''\<rparr>"

definition cached_questions :: response where
  "cached_questions =
     \<lparr>rs_status = 200, rs_statusText = ''OK'', rs_body = ''[]'', rs_vary = []\<rparr>"

definition new_questions :: response where
  "new_questions =
     \<lparr>rs_status = 200, rs_statusText = ''OK'', rs_body = ''[1]'', rs_vary = []\<rparr>"

definition warm_caches :: caches where
  "warm_caches =
     [(STATIC_CACHE_NAME, []),
      (DYNAMIC_CACHE_NAME, [(rq_url api_request, cached_questions)])]"

text \<open>A platform without network, and one that answers every request with \<open>r\<close>.\<close>

definition offline_platform :: platform where
  "offline_platform =
     \<lparr>pf_fetch = (\<lambda>request. Rejected), pf_opens = (\<lambda>name. True),
      pf_accepts = (\<lambda>request r. True)\<rparr>"

definition answering :: "response \<Rightarrow> platform" where
  "answering r =
     \<lparr>pf_fetch = (\<lambda>request. Resolved r), pf_opens = (\<lambda>name. True),
      pf_accepts = (\<lambda>request x. True)\<rparr>"

text \<open>A media file asked for by range, and the partial response that a server gives.\<close>

definition video_request :: request where
  "video_request =
     \<lparr>rq_method = ''GET'',
      rq_url = \<lparr>u_protocol = ''https:'', u_host = ''quiz.example'',
                u_pathname = ''/assets/intro.mp4'', u_search = []\<rparr>,
      rq_mode = ''no-cors''\<rparr>"

definition partial_content :: response where
  "partial_content =
     \<lparr>rs_status = 206, rs_statusText = ''Partial Content'', rs_body = ''...'',
      rs_vary = []\<rparr>"

section \<open>Notions used in the statements\<close>

text \<open>A run of successive calls of \<open>saveQuizResult\<close>, one per quiz run.\<close>

fun appendAll :: "store \<Rightarrow> quiz_run list \<Rightarrow> store option" where
  "appendAll st [] = Some st"
| "appendAll st (r # rs) = do { (_, st1) \<leftarrow> saveQuizResult st r; appendAll st1 rs }"

text \<open>
  \<open>stamped_from a q\<close>: the stored record \<open>a\<close> is the imported record \<open>q\<close> but for
  \<^verbatim>\<open>importedAt\<close> and, when \<open>q\<close> had no id, the id it was given.
\<close>

definition stamped_from :: "question \<Rightarrow> question \<Rightarrow> bool" where
  "stamped_from a q =
     ((if truthy (q_id q) then q_id a = q_id q else q_id a \<noteq> None) \<and>
      a = q\<lparr>q_id := q_id a, q_importedAt := q_importedAt a\<rparr>)"

text \<open>
  \<open>fresh_ids st dqs\<close>: from now on \<^verbatim>\<open>generateId\<close> never repeats itself and never
  returns an id that is stored or that a record of \<open>dqs\<close> carries.
\<close>

definition fresh_ids :: "store \<Rightarrow> question list \<Rightarrow> bool" where
  "fresh_ids st dqs =
     (inj_on (rand st) {tick st..} \<and>
      (\<forall>k\<ge>tick st. Some (rand st k) \<notin> set (map q_id (questions st)) \<union> set (map q_id dqs)))"

section \<open>Basic facts about writes\<close>

lemma setItem_ok:
  "writes st (nwrites st) = WriteOk \<Longrightarrow> setItem st v = Some (True, stored v (written st))"
  by (subst setItem.simps) simp

lemma setItem_other:
  "writes st (nwrites st) = OtherFailure \<Longrightarrow> setItem st v = Some (False, written st)"
  by (subst setItem.simps) simp

lemma setItem_quota:
  "writes st (nwrites st) = QuotaExceeded \<Longrightarrow>
     setItem st v = do { st' \<leftarrow> handleStorageFull (written st); Some (False, st') }"
  by (subst setItem.simps)
    (auto simp add: handleStorageFull_def Let_def split: prod.splits Option.bind_splits)

section \<open>The text import parser on the documented example\<close>

lemma parseSingle_spec_example: "parseSingleQuestionFromText spec_example = None"
  by (simp add: spec_example_def parseSingleQuestionFromText_def trim_def is_space_def
      scanLine_def isOptionLine_def isAnswerLine_def isExplanationLine_def toLowerCase_def
      toLowerChar_def is_letter_def toUpperLetter_def afterColon_def)

lemma splitBlocks_spec_example: "splitBlocks [] spec_example = [spec_example]"
  by (simp add: spec_example_def is_space_def)

text \<open>
  What the parser does guarantee: a block that yields a question has at least two
  options, and the index it marks as correct is one of theirs.
\<close>

lemma parseSingle_sound:
  assumes "parseSingleQuestionFromText block = Some q"
  shows "2 \<le> length (q_options q) \<and> 0 \<le> q_correct q \<and>
         q_correct q < int (length (q_options q))"
  using assms
  by (auto simp: parseSingleQuestionFromText_def Let_def split: if_splits prod.splits)

text \<open>
  C6. The specification's example text is one block with three options, an answer line
  \<^verbatim>\<open>Resposta: C\<close> and an explanation, and should parse to one question with
  \<open>correct = 2\<close>. The parser takes the first letter of the whole answer line, the
  \<^verbatim>\<open>R\<close> of the label, whose index 17 is out of range, so the block is dropped and the
  import yields no question at all.
\<close>

theorem parser_drops_spec_example:
  "parseMultipleQuestionsFromText st spec_example = ([], st)"
  by (simp add: parseMultipleQuestionsFromText_def splitBlocks_spec_example
      parseSingle_spec_example)

section \<open>Saving a collection\<close>

text \<open>The sibling: \<open>saveQuestion\<close> appends a question whose id the store does not know.\<close>

lemma saveQuestion_unknown_id_appended:
  "\<exists>st'. saveQuestion fresh_store capital_question = Some (Some ''q1'', st') \<and>
         map q_id (questions st') = [Some ''q1''] \<and>
         map_option q_id (getQuestionById st' (Some ''q1'')) = Some (Some ''q1'')"
  by (simp add: saveQuestion_def getAllQuestions_def fresh_store_def capital_question_def
      truthy_def newDate_def setItem_ok written_def getQuestionById_def)

text \<open>
  C7. A collection that carries an id unknown to the store should be appended, as
  \<open>saveQuestion\<close> does with a question. \<open>saveCollection\<close> has no such branch: it
  writes the collections back as they were and returns the id, which
  \<open>getCollectionById\<close> then does not find.
\<close>

theorem saveCollection_unknown_id_lost:
  "\<exists>st'. saveCollection fresh_store geography = Some (Some ''c1'', st') \<and>
         collections st' = [] \<and> getCollectionById st' (Some ''c1'') = None"
  by (simp add: saveCollection_def getAllCollections_def fresh_store_def geography_def
      truthy_def setItem_ok written_def getCollectionById_def)

section \<open>Restoring an invalid backup\<close>

text \<open>
  C10. \<open>restoreBackup\<close> on a missing backup, or on a backup without a \<^verbatim>\<open>data\<close> field,
  throws the error whose message is \<open>invalid_backup\<close> instead of returning a failure
  result, and leaves the store as it was.
\<close>

theorem restoreBackup_invalid_throws:
  "backupData = None \<or> (\<exists>b. backupData = Some b \<and> bk_data b = None) \<Longrightarrow>
   restoreBackup st backupData = Some (Inl (Error invalid_backup), st)"
  by (auto simp: restoreBackup_def)

theorem restoreBackup_invalid_throws_witness:
  "restoreBackup fresh_store None = Some (Inl (Error invalid_backup), fresh_store) \<and>
   restoreBackup fresh_store (Some empty_backup) =
     Some (Inl (Error invalid_backup), fresh_store)"
  using restoreBackup_invalid_throws [of None fresh_store]
    restoreBackup_invalid_throws [of "Some empty_backup" fresh_store]
  by (simp add: empty_backup_def)

section \<open>Activation of the offline worker\<close>

lemma foldl_caches_delete:
  "foldl (\<lambda>acc n. if D n then caches_delete n acc else acc) cs ns =
   filter (\<lambda>(n, c). \<not> (n \<in> set ns \<and> D n)) cs"
proof (induction ns arbitrary: cs)
  case Nil
  then show ?case by simp
next
  case (Cons a ns)
  show ?case
    by (auto simp add: Cons.IH caches_delete_def intro!: filter_cong)
qed

text \<open>
  C9, as stated: after activation only the current static and dynamic caches remain.
  A cache whose name does not start with \<^verbatim>\<open>quiz-pro-\<close> survives the activation.
\<close>

theorem activate_keeps_foreign_cache:
  "\<not> set (caches_keys (activate [(''workbox-precache-v2'', [])]))
       \<subseteq> {STATIC_CACHE_NAME, DYNAMIC_CACHE_NAME}"
  by (simp add: activate_def caches_keys_def caches_delete_def STATIC_CACHE_NAME_def
      DYNAMIC_CACHE_NAME_def)

text \<open>
  C9, amended: activation deletes exactly the caches whose name starts with
  \<^verbatim>\<open>quiz-pro-\<close> and is neither the current static nor the current dynamic name; every
  other cache stays, with its content and in its place.
\<close>

theorem activate_deletes_old_generations:
  "activate cs =
   filter (\<lambda>(n, c). n = STATIC_CACHE_NAME \<or> n = DYNAMIC_CACHE_NAME \<or>
                     \<not> prefix ''quiz-pro-'' n) cs"
  unfolding activate_def foldl_caches_delete caches_keys_def
  by (rule filter_cong) (auto simp: rev_image_eqI)

theorem activate_deletes_old_generations_witness:
  "activate [(''quiz-pro-static-v0.9.0'', []), (STATIC_CACHE_NAME, []),
             (''workbox-precache-v2'', [])] =
   [(STATIC_CACHE_NAME, []), (''workbox-precache-v2'', [])]"
  using activate_deletes_old_generations
    [of "[(''quiz-pro-static-v0.9.0'', []), (STATIC_CACHE_NAME, []),
          (''workbox-precache-v2'', [])]"]
  by (simp add: STATIC_CACHE_NAME_def DYNAMIC_CACHE_NAME_def)

section \<open>The history ledger\<close>

lemma saveQuizResult_ok:
  assumes "writes st (nwrites st) = WriteOk"
  shows "saveQuizResult st r =
    Some (rand st (tick st),
      st\<lparr>tick := Suc (Suc (tick st)), nwrites := Suc (nwrites st),
         history := \<lparr>r_id = rand st (tick st), r_timestamp = clock st (Suc (tick st)),
            r_summary = run_summary r, r_questions = run_questions r\<rparr> #
            take 50 (history st)\<rparr>)"
  using assms
  by (simp add: saveQuizResult_def getQuizHistory_def generateId_def newDate_def Let_def
      setItem_ok written_def)

text \<open>
  Every append keeps the new result and at most the 50 newest of the stored ones, so a
  ledger never grows beyond 51 entries, whatever it held before.
\<close>

lemma appendAll_length:
  assumes "\<forall>n. writes st n = WriteOk"
  shows "\<exists>st'. appendAll st rs = Some st' \<and>
     length (history st') =
       (if rs = [] then length (history st) else min 51 (length (history st) + length rs))"
  using assms
proof (induction rs arbitrary: st)
  case Nil
  then show ?case by simp
next
  case (Cons r rs)
  let ?st1 = "st\<lparr>tick := Suc (Suc (tick st)), nwrites := Suc (nwrites st),
         history := \<lparr>r_id = rand st (tick st), r_timestamp = clock st (Suc (tick st)),
            r_summary = run_summary r, r_questions = run_questions r\<rparr> #
            take 50 (history st)\<rparr>"
  have ok1: "\<forall>n. writes ?st1 n = WriteOk" using Cons.prems by simp
  have step: "appendAll st (r # rs) = appendAll ?st1 rs"
    using Cons.prems by (simp add: saveQuizResult_ok)
  from Cons.IH [OF ok1] obtain st' where
    st': "appendAll ?st1 rs = Some st'"
    "length (history st') =
       (if rs = [] then length (history ?st1) else min 51 (length (history ?st1) + length rs))"
    by blast
  show ?case
    unfolding step using st' by (auto simp: min_def)
qed

text \<open>
  C1. After 101 appends the ledger should hold 100 results, only the oldest gone.
  \<open>saveQuizResult\<close> reads the ledger through \<open>getQuizHistory\<close> with its default limit
  of 50, so its own cap of 100 is never reached: after 101 appends to an empty ledger,
  every write succeeding, 51 results are stored.
\<close>

theorem ledger_holds_51_after_101_appends:
  "\<exists>st'. appendAll fresh_store (replicate 101 some_run) = Some st' \<and>
         length (history st') = 51"
proof -
  have "\<forall>n. writes fresh_store n = WriteOk" by (simp add: fresh_store_def)
  from appendAll_length [OF this, of "replicate 101 some_run"] show ?thesis
    by (auto simp: fresh_store_def)
qed

section \<open>The statistics\<close>

lemma foldl_accumulate_count:
  "acc_totalQuizzes (foldl accumulate acc h) = acc_totalQuizzes acc + int (length h)"
  by (induction h arbitrary: acc) (auto simp: accumulate_def Let_def)

lemma foldl_accumulate_best:
  "list_all (\<lambda>r. sm_percentage (r_summary r) \<le> acc_bestScore acc) h \<Longrightarrow>
   acc_bestScore (foldl accumulate acc h) = acc_bestScore acc"
  by (induction h arbitrary: acc) (auto simp: accumulate_def Let_def)

lemma getQuizStatistics_recent_only:
  "getQuizStatistics st = getQuizStatistics (st\<lparr>history := take 50 (history st)\<rparr>)"
  by (simp add: getQuizStatistics_def getQuizHistory_def)

text \<open>
  C2. The statistics should cover the whole stored history. \<open>getQuizStatistics\<close> reads
  it through \<open>getQuizHistory\<close> with the default limit of 50: on a ledger of 51 results
  whose oldest is the only one above zero, it counts 50 quizzes and reports a best score
  of 0, though the stored perfect run scored 100.
\<close>

theorem statistics_ignore_results_beyond_50:
  "length (history long_history_store) = 51 \<and>
   sm_percentage (r_summary (last (history long_history_store))) = 100 \<and>
   totalQuizzes (getQuizStatistics long_history_store) = 50 \<and>
   bestScore (getQuizStatistics long_history_store) = 0"
proof -
  have h: "getQuizHistory long_history_store 50 = map failed_result [0..<50]"
    by (simp add: getQuizHistory_def long_history_store_def)
  have low: "list_all (\<lambda>r. sm_percentage (r_summary r) \<le> 0) (map failed_result [0..<50])"
    by (simp add: list_all_iff failed_result_def some_summary_def)
  have 1: "length (history long_history_store) = 51"
    by (simp add: long_history_store_def)
  have 2: "sm_percentage (r_summary (last (history long_history_store))) = 100"
    by (simp add: long_history_store_def perfect_result_def some_summary_def)
  have 3: "totalQuizzes (getQuizStatistics long_history_store) = 50"
    by (simp add: getQuizStatistics_def h Let_def foldl_accumulate_count)
  have 4: "bestScore (getQuizStatistics long_history_store) = 0"
    using low by (simp add: getQuizStatistics_def h Let_def foldl_accumulate_best)
  from 1 2 3 4 show ?thesis by simp
qed

section \<open>Writes that fail on quota\<close>

lemma setItem_no_quota:
  "writes st (nwrites st) \<noteq> QuotaExceeded \<Longrightarrow>
   setItem st v =
     Some (writes st (nwrites st) = WriteOk,
           if writes st (nwrites st) = WriteOk then stored v (written st) else written st)"
  by (cases "writes st (nwrites st)") (simp_all add: setItem_ok setItem_other)

text \<open>
  A call of \<open>setItem\<close> that returns has met a write that did not fail on quota; so
  where every write fails on quota, no call returns.
\<close>

lemma setItem_needs_a_write_without_quota:
  assumes "setItem st0 v0 = Some y0"
  shows "\<exists>n\<ge>nwrites st0. writes st0 n \<noteq> QuotaExceeded"
proof (rule setItem.raw_induct
    [where P = "\<lambda>st v y. \<exists>n\<ge>nwrites st. writes st n \<noteq> QuotaExceeded", OF _ assms])
  fix f :: "store \<Rightarrow> item \<Rightarrow> (bool \<times> store) option" and st v y
  assume IH: "\<And>s w z. f s w = Some z \<Longrightarrow> \<exists>n\<ge>nwrites s. writes s n \<noteq> QuotaExceeded"
  assume unfolded:
    "(case writes st (nwrites st) of
        WriteOk \<Rightarrow> Some (True, stored v (written st))
      | QuotaExceeded \<Rightarrow>
          let st1 = written st; h = getQuizHistory st1 50
          in (if 20 < length h then f st1 (History (take 20 h)) else Some (True, st1)) \<bind>
             (\<lambda>(_, st2). f st2 (Imports []) \<bind> (\<lambda>(_, st3). Some (False, st3)))
      | OtherFailure \<Rightarrow> Some (False, written st)) = Some y"
  show "\<exists>n\<ge>nwrites st. writes st n \<noteq> QuotaExceeded"
  proof (cases "writes st (nwrites st) = QuotaExceeded")
    case False
    then show ?thesis by blast
  next
    case True
    have w: "writes (written st) = writes st" "nwrites (written st) = Suc (nwrites st)"
      by (simp_all add: written_def)
    have body:
      "(if 20 < length (getQuizHistory (written st) 50)
        then f (written st) (History (take 20 (getQuizHistory (written st) 50)))
        else Some (True, written st)) \<bind>
       (\<lambda>(_, st2). f st2 (Imports []) \<bind> (\<lambda>(_, st3). Some (False, st3))) = Some y"
      using unfolded True by (simp add: Let_def)
    have "\<exists>s w z. f s w = Some z \<and> nwrites s = Suc (nwrites st) \<and> writes s = writes st"
    proof (cases "20 < length (getQuizHistory (written st) 50)")
      case cut: True
      have "f (written st) (History (take 20 (getQuizHistory (written st) 50))) \<noteq> None"
      proof
        assume "f (written st) (History (take 20 (getQuizHistory (written st) 50))) = None"
        with body cut show False by simp
      qed
      then obtain z where
        "f (written st) (History (take 20 (getQuizHistory (written st) 50))) = Some z"
        by (cases "f (written st) (History (take 20 (getQuizHistory (written st) 50)))")
          simp_all
      with w show ?thesis by blast
    next
      case False
      have "f (written st) (Imports []) \<noteq> None"
      proof
        assume "f (written st) (Imports []) = None"
        with body False show False by simp
      qed
      then obtain z where "f (written st) (Imports []) = Some z"
        by (cases "f (written st) (Imports [])") simp_all
      with w show ?thesis by blast
    qed
    then obtain s w z where
      s: "f s w = Some z" "nwrites s = Suc (nwrites st)" "writes s = writes st"
      by blast
    from IH [OF s(1)] obtain n where "nwrites s \<le> n" "writes s n \<noteq> QuotaExceeded"
      by blast
    with s have "nwrites st \<le> n \<and> writes st n \<noteq> QuotaExceeded" by simp
    then show ?thesis by blast
  qed
qed

lemma setItem_all_quota:
  assumes "\<forall>n. writes st n = QuotaExceeded"
  shows "setItem st v = None"
proof (cases "setItem st v")
  case None
  then show ?thesis .
next
  case (Some y)
  from setItem_needs_a_write_without_quota [OF this] assms show ?thesis by blast
qed

lemma handleStorageFull_no_quota:
  assumes "writes st (nwrites st) \<noteq> QuotaExceeded"
    and "20 < length (take 50 (history st)) \<longrightarrow> writes st (Suc (nwrites st)) \<noteq> QuotaExceeded"
  shows "\<exists>st'. handleStorageFull st = Some st' \<and>
     questions st' = questions st \<and> collections st' = collections st \<and>
     settings_item st' = settings_item st \<and>
     (history st' = history st \<or> history st' = take 20 (history st)) \<and>
     (importlog st' = importlog st \<or> importlog st' = [])"
proof (cases "20 < length (take 50 (history st))")
  case True
  let ?s1 = "if writes st (nwrites st) = WriteOk
             then stored (History (take 20 (history st))) (written st) else written st"
  have 1: "setItem st (History (take 20 (take 50 (history st)))) =
             Some (writes st (nwrites st) = WriteOk, ?s1)"
    using assms(1) by (simp add: setItem_no_quota)
  have w: "writes ?s1 (nwrites ?s1) \<noteq> QuotaExceeded"
    using assms(2) True by (simp add: written_def)
  have "handleStorageFull st =
          Some (if writes ?s1 (nwrites ?s1) = WriteOk
                then stored (Imports []) (written ?s1) else written ?s1)"
    using True 1 setItem_no_quota [OF w, of "Imports []"]
    by (simp add: handleStorageFull_def getQuizHistory_def Let_def)
  then show ?thesis
    by (simp add: written_def)
next
  case False
  have "handleStorageFull st =
          Some (if writes st (nwrites st) = WriteOk
                then stored (Imports []) (written st) else written st)"
    using False setItem_no_quota [OF assms(1), of "Imports []"]
    by (simp add: handleStorageFull_def getQuizHistory_def Let_def)
  then show ?thesis
    by (simp add: written_def)
qed

lemma handleStorageFull_cleanup_ok:
  assumes "writes st (nwrites st) = WriteOk"
    and "20 < length (take 50 (history st)) \<longrightarrow> writes st (Suc (nwrites st)) = WriteOk"
  shows "handleStorageFull st =
     Some (st\<lparr>history := (if 20 < length (take 50 (history st)) then take 20 (history st)
                             else history st),
              importlog := [],
              nwrites := nwrites st + (if 20 < length (take 50 (history st)) then 2 else 1)\<rparr>)"
  using assms
  by (simp add: handleStorageFull_def getQuizHistory_def setItem_ok written_def Let_def min_def)

lemma newest_first_take:
  assumes "sorted_wrt (\<lambda>a b. r_timestamp b \<le> r_timestamp a) h"
  shows "\<forall>a\<in>set (take k h). \<forall>b\<in>set (drop k h). r_timestamp b \<le> r_timestamp a"
proof -
  have "sorted_wrt (\<lambda>a b. r_timestamp b \<le> r_timestamp a) (take k h @ drop k h)"
    using assms by simp
  then show ?thesis
    unfolding sorted_wrt_append by blast
qed

text \<open>
  C5, as stated: after the clean-up the failed write is retried once, only a second
  failure is reported, and the call never crashes. On a store whose first write fails on
  quota and whose every later write would succeed, \<open>setItem\<close> returns \<open>False\<close> all the
  same: the questions are not stored, and only two writes were attempted, the failed one
  and the clearing of the import log. And on a store whose every write fails on quota,
  the clean-up calls \<open>setItem\<close>, which calls the clean-up, without end: the call
  returns nothing.
\<close>

theorem setItem_gives_up_after_cleanup:
  "(\<exists>st'. setItem full_store (Questions [capital_question]) = Some (False, st') \<and>
          questions st' = [] \<and> nwrites st' = 2 \<and> writes st' (nwrites st') = WriteOk) \<and>
   setItem jammed_store (Questions [capital_question]) = None"
proof
  show "\<exists>st'. setItem full_store (Questions [capital_question]) = Some (False, st') \<and>
          questions st' = [] \<and> nwrites st' = 2 \<and> writes st' (nwrites st') = WriteOk"
    by (simp add: setItem_quota handleStorageFull_def getQuizHistory_def setItem_ok written_def
        full_store_def fresh_store_def)
next
  have "\<forall>n. writes jammed_store n = QuotaExceeded"
    by (simp add: jammed_store_def)
  then show "setItem jammed_store (Questions [capital_question]) = None"
    by (rule setItem_all_quota)
qed

text \<open>
  C5, amended: a write that fails on quota is never retried and never reported as a
  success: if \<open>setItem\<close> returns, it returns \<open>False\<close> with the store as the clean-up
  left it, whatever the value was. It does return, with the questions, the collections
  and the settings as they were, whenever the clean-up's own writes (the clearing of the
  import log and, before it, the cut of the history if there is one) do not fail on
  quota in turn. When these writes succeed, the stored history list is cut to its first
  20 entries if its first 50 number more than 20, the import log is empty, and nothing
  else has changed. The first 20 entries are the 20 most recent ones when the list is
  stored newest first: then no entry that is dropped is more recent than one that stays.
\<close>

theorem setItem_quota_not_retried:
  assumes "writes st (nwrites st) = QuotaExceeded"
  shows
    "(\<forall>ok st'. setItem st v = Some (ok, st') \<longrightarrow>
        \<not> ok \<and> handleStorageFull (written st) = Some st') \<and>
     (writes st (Suc (nwrites st)) \<noteq> QuotaExceeded \<and>
      (20 < length (take 50 (history st)) \<longrightarrow>
         writes st (Suc (Suc (nwrites st))) \<noteq> QuotaExceeded) \<longrightarrow>
        (\<exists>st'. setItem st v = Some (False, st') \<and>
           questions st' = questions st \<and> collections st' = collections st \<and>
           settings_item st' = settings_item st \<and>
           (history st' = history st \<or> history st' = take 20 (history st)) \<and>
           (importlog st' = importlog st \<or> importlog st' = []))) \<and>
     (writes st (Suc (nwrites st)) = WriteOk \<and>
      (20 < length (take 50 (history st)) \<longrightarrow>
         writes st (Suc (Suc (nwrites st))) = WriteOk) \<longrightarrow>
        setItem st v =
          Some (False,
            st\<lparr>history := (if 20 < length (take 50 (history st)) then take 20 (history st)
                             else history st),
               importlog := [],
               nwrites := nwrites st + (if 20 < length (take 50 (history st)) then 3 else 2)\<rparr>)) \<and>
     (sorted_wrt (\<lambda>a b. r_timestamp b \<le> r_timestamp a) (history st) \<longrightarrow>
        (\<forall>a\<in>set (take 20 (history st)). \<forall>b\<in>set (drop 20 (history st)).
           r_timestamp b \<le> r_timestamp a))"
proof (intro conjI)
  show "\<forall>ok st'. setItem st v = Some (ok, st') \<longrightarrow>
          \<not> ok \<and> handleStorageFull (written st) = Some st'"
    using assms by (auto simp: setItem_quota split: Option.bind_splits)
next
  show "writes st (Suc (nwrites st)) \<noteq> QuotaExceeded \<and>
      (20 < length (take 50 (history st)) \<longrightarrow>
         writes st (Suc (Suc (nwrites st))) \<noteq> QuotaExceeded) \<longrightarrow>
        (\<exists>st'. setItem st v = Some (False, st') \<and>
           questions st' = questions st \<and> collections st' = collections st \<and>
           settings_item st' = settings_item st \<and>
           (history st' = history st \<or> history st' = take 20 (history st)) \<and>
           (importlog st' = importlog st \<or> importlog st' = []))"
  proof
    assume h: "writes st (Suc (nwrites st)) \<noteq> QuotaExceeded \<and>
      (20 < length (take 50 (history st)) \<longrightarrow>
         writes st (Suc (Suc (nwrites st))) \<noteq> QuotaExceeded)"
    have a: "writes (written st) (nwrites (written st)) \<noteq> QuotaExceeded"
      using h by (simp add: written_def)
    have b: "20 < length (take 50 (history (written st))) \<longrightarrow>
             writes (written st) (Suc (nwrites (written st))) \<noteq> QuotaExceeded"
      using h by (simp add: written_def)
    from handleStorageFull_no_quota [OF a b] obtain st' where
      "handleStorageFull (written st) = Some st'"
      "questions st' = questions (written st)" "collections st' = collections (written st)"
      "settings_item st' = settings_item (written st)"
      "history st' = history (written st) \<or> history st' = take 20 (history (written st))"
      "importlog st' = importlog (written st) \<or> importlog st' = []"
      by blast
    then show "\<exists>st'. setItem st v = Some (False, st') \<and>
           questions st' = questions st \<and> collections st' = collections st \<and>
           settings_item st' = settings_item st \<and>
           (history st' = history st \<or> history st' = take 20 (history st)) \<and>
           (importlog st' = importlog st \<or> importlog st' = [])"
      using assms by (simp add: setItem_quota written_def)
  qed
next
  show "writes st (Suc (nwrites st)) = WriteOk \<and>
      (20 < length (take 50 (history st)) \<longrightarrow>
         writes st (Suc (Suc (nwrites st))) = WriteOk) \<longrightarrow>
        setItem st v =
          Some (False,
            st\<lparr>history := (if 20 < length (take 50 (history st)) then take 20 (history st)
                             else history st),
               importlog := [],
               nwrites := nwrites st + (if 20 < length (take 50 (history st)) then 3 else 2)\<rparr>)"
  proof
    assume h: "writes st (Suc (nwrites st)) = WriteOk \<and>
      (20 < length (take 50 (history st)) \<longrightarrow>
         writes st (Suc (Suc (nwrites st))) = WriteOk)"
    have a: "writes (written st) (nwrites (written st)) = WriteOk"
      using h by (simp add: written_def)
    have b: "20 < length (take 50 (history (written st))) \<longrightarrow>
             writes (written st) (Suc (nwrites (written st))) = WriteOk"
      using h by (simp add: written_def)
    from handleStorageFull_cleanup_ok [OF a b] assms
    show "setItem st v =
          Some (False,
            st\<lparr>history := (if 20 < length (take 50 (history st)) then take 20 (history st)
                             else history st),
               importlog := [],
               nwrites := nwrites st + (if 20 < length (take 50 (history st)) then 3 else 2)\<rparr>)"
      by (simp add: setItem_quota written_def)
  qed
next
  show "sorted_wrt (\<lambda>a b. r_timestamp b \<le> r_timestamp a) (history st) \<longrightarrow>
        (\<forall>a\<in>set (take 20 (history st)). \<forall>b\<in>set (drop 20 (history st)).
           r_timestamp b \<le> r_timestamp a)"
    using newest_first_take by blast
qed

theorem setItem_quota_not_retried_witness:
  "setItem later_full_store (Questions [capital_question]) =
     Some (False,
       later_full_store\<lparr>history := map failed_result [0..<20], importlog := [],
                         nwrites := 3\<rparr>) \<and>
   writes later_full_store 3 = QuotaExceeded \<and>
   list_all (\<lambda>b. r_timestamp b \<le> 81) (drop 20 (history later_full_store))"
proof -
  have q: "writes later_full_store (nwrites later_full_store) = QuotaExceeded"
    by (simp add: later_full_store_def fresh_store_def)
  have c: "writes later_full_store (Suc (nwrites later_full_store)) = WriteOk \<and>
      (20 < length (take 50 (history later_full_store)) \<longrightarrow>
         writes later_full_store (Suc (Suc (nwrites later_full_store))) = WriteOk)"
    by (simp add: later_full_store_def fresh_store_def)
  have t: "take 20 (history later_full_store) = map failed_result [0..<20]"
    by (simp add: later_full_store_def take_map)
  have l: "length (history later_full_store) = 25"
    by (simp add: later_full_store_def)
  have n: "nwrites later_full_store = 0"
    by (simp add: later_full_store_def fresh_store_def)
  have s: "sorted_wrt (\<lambda>a b. r_timestamp b \<le> r_timestamp a) (history later_full_store)"
    by (simp add: later_full_store_def sorted_wrt_map failed_result_def sorted_wrt_upt
        sorted_wrt_iff_nth_less)
  have m: "failed_result 19 \<in> set (take 20 (history later_full_store))"
    unfolding t by simp
  note inst = setItem_quota_not_retried [OF q, of "Questions [capital_question]"]
  from inst c have 1: "setItem later_full_store (Questions [capital_question]) =
     Some (False,
       later_full_store\<lparr>history := map failed_result [0..<20], importlog := [],
                         nwrites := 3\<rparr>)"
    by (simp add: t l n)
  from inst s have "\<forall>a\<in>set (take 20 (history later_full_store)).
      \<forall>b\<in>set (drop 20 (history later_full_store)). r_timestamp b \<le> r_timestamp a"
    by blast
  with m have "\<forall>b\<in>set (drop 20 (history later_full_store)).
      r_timestamp b \<le> r_timestamp (failed_result 19)"
    by blast
  then have 3: "list_all (\<lambda>b. r_timestamp b \<le> 81) (drop 20 (history later_full_store))"
    by (simp add: list_all_iff failed_result_def)
  have 2: "writes later_full_store 3 = QuotaExceeded"
    by (simp add: later_full_store_def)
  from 1 2 3 show ?thesis by simp
qed

section \<open>Restoring a backup\<close>

text \<open>
  C3. A restore should replace the collections by those of the backup, as it replaces
  the questions. \<open>importData\<close> touches the collections only when it merges them, and
  \<open>restoreBackup\<close> asks for no merge: the restore of a backup holding the collection
  \<open>history_collection\<close> into a store holding \<open>geography\<close> replaces the question and
  merges the history, and leaves \<open>geography\<close> as the only collection.
\<close>

theorem restoreBackup_keeps_collections:
  "\<exists>st'. restoreBackup geography_store (Some sample_backup) =
           Some (Inr (ImportSuccess 1), st') \<and>
         collections st' = [geography] \<and>
         map q_id (questions st') = [Some ''q1''] \<and>
         history st' = [perfect_result]"
  by (simp add: restoreBackup_def sample_backup_def importData_def importQuestions_def
      importCollections_def importHistory_def importSettings_def logImport_def
      restore_options_def geography_store_def fresh_store_def stampQuestion_def
      capital_question_def truthy_def newDate_def generateId_def setItem_ok written_def
      getQuizHistory_def uniqueById_def sortLatestFirst_def Let_def)

section \<open>Merging imported questions\<close>

lemma stampQuestion_tick:
  "stampQuestion st q = (q', st') \<Longrightarrow> \<exists>k. st' = st\<lparr>tick := k\<rparr>"
  by (auto simp: stampQuestion_def generateId_def newDate_def Let_def split: if_splits)

lemma stampQuestions_tick:
  "stampQuestions st qs = (qs', st') \<Longrightarrow> \<exists>k. st' = st\<lparr>tick := k\<rparr>"
proof (induction qs arbitrary: st qs' st')
  case Nil
  then have "st' = st\<lparr>tick := tick st\<rparr>" by simp
  then show ?case by blast
next
  case (Cons q qs)
  obtain q1 st1 where 1: "stampQuestion st q = (q1, st1)" by (cases "stampQuestion st q")
  obtain qs2 st2 where 2: "stampQuestions st1 qs = (qs2, st2)"
    by (cases "stampQuestions st1 qs")
  from Cons.prems 1 2 have st': "st' = st2" by simp
  from stampQuestion_tick [OF 1] obtain k1 where k1: "st1 = st\<lparr>tick := k1\<rparr>" by blast
  from Cons.IH [OF 2] obtain k2 where k2: "st2 = st1\<lparr>tick := k2\<rparr>" by blast
  have "st' = st\<lparr>tick := k2\<rparr>" by (simp add: st' k2 k1)
  then show ?case by blast
qed

lemma stampQuestion_stamped:
  "stampQuestion st q = (q', st') \<Longrightarrow> stamped_from q' q"
  by (auto simp: stampQuestion_def stamped_from_def generateId_def newDate_def Let_def
      split: if_splits)

lemma stampQuestions_stamped:
  "stampQuestions st qs = (qs', st') \<Longrightarrow> list_all2 stamped_from qs' qs"
proof (induction qs arbitrary: st qs' st')
  case Nil
  then show ?case by simp
next
  case (Cons q qs)
  obtain q1 st1 where 1: "stampQuestion st q = (q1, st1)" by (cases "stampQuestion st q")
  obtain qs2 st2 where 2: "stampQuestions st1 qs = (qs2, st2)"
    by (cases "stampQuestions st1 qs")
  from Cons.prems 1 2 have "qs' = q1 # qs2" by simp
  with stampQuestion_stamped [OF 1] Cons.IH [OF 2] show ?case by simp
qed

lemma stamped_ids:
  "list_all2 stamped_from qs' qs \<Longrightarrow> list_all (\<lambda>q. truthy (q_id q)) qs \<Longrightarrow>
   map q_id qs' = map q_id qs"
  by (induction qs' qs rule: list_all2_induct) (auto simp: stamped_from_def)

lemma stampQuestion_id:
  "stampQuestion st q = (q', st') \<Longrightarrow>
   rand st' = rand st \<and> tick st < tick st' \<and>
   (if truthy (q_id q) then q_id q' = q_id q else q_id q' = Some (rand st (tick st)))"
  by (auto simp: stampQuestion_def generateId_def newDate_def Let_def split: if_splits)

lemma stampQuestions_ids:
  "stampQuestions st qs = (qs', st') \<Longrightarrow>
   rand st' = rand st \<and> tick st \<le> tick st' \<and>
   set (map q_id qs') \<subseteq>
     {i. i \<in> set (map q_id qs) \<and> truthy i} \<union> {Some (rand st k) | k. tick st \<le> k \<and> k < tick st'}"
proof (induction qs arbitrary: st qs' st')
  case Nil
  then show ?case by simp
next
  case (Cons q qs)
  obtain q1 st1 where 1: "stampQuestion st q = (q1, st1)" by (cases "stampQuestion st q")
  obtain qs2 st2 where 2: "stampQuestions st1 qs = (qs2, st2)"
    by (cases "stampQuestions st1 qs")
  from Cons.prems 1 2 have e: "qs' = q1 # qs2" "st' = st2" by simp_all
  note a = stampQuestion_id [OF 1]
  note b = Cons.IH [OF 2]
  have r: "rand st' = rand st" using a b e by simp
  have t: "tick st \<le> tick st'" using a b e by simp
  have h: "q_id q1 \<in> {i. i \<in> set (map q_id (q # qs)) \<and> truthy i} \<union>
              {Some (rand st k) | k. tick st \<le> k \<and> k < tick st'}"
  proof (cases "truthy (q_id q)")
    case True
    with a show ?thesis by simp
  next
    case False
    with a have "q_id q1 = Some (rand st (tick st))" by simp
    moreover have "tick st < tick st'" using a b e by simp
    ultimately show ?thesis by blast
  qed
  have "set (map q_id qs2) \<subseteq> {i. i \<in> set (map q_id (q # qs)) \<and> truthy i} \<union>
              {Some (rand st k) | k. tick st \<le> k \<and> k < tick st'}"
  proof
    fix i assume "i \<in> set (map q_id qs2)"
    with b have "i \<in> {i. i \<in> set (map q_id qs) \<and> truthy i} \<union>
                    {Some (rand st1 k) | k. tick st1 \<le> k \<and> k < tick st2}"
      by blast
    then show "i \<in> {i. i \<in> set (map q_id (q # qs)) \<and> truthy i} \<union>
              {Some (rand st k) | k. tick st \<le> k \<and> k < tick st'}"
    proof
      assume "i \<in> {i. i \<in> set (map q_id qs) \<and> truthy i}"
      then show ?thesis by simp
    next
      assume "i \<in> {Some (rand st1 k) | k. tick st1 \<le> k \<and> k < tick st2}"
      then obtain k where "i = Some (rand st1 k)" "tick st1 \<le> k" "k < tick st2" by blast
      with a e have "i = Some (rand st k) \<and> tick st \<le> k \<and> k < tick st'" by simp
      then show ?thesis by blast
    qed
  qed
  with h r t e show ?case by simp
qed

lemma stampQuestions_distinct:
  assumes "stampQuestions st qs = (qs', st')"
    and "distinct (filter truthy (map q_id qs))"
    and "inj_on (rand st) {tick st..}"
    and "\<forall>k\<ge>tick st. Some (rand st k) \<notin> set (map q_id qs)"
  shows "distinct (map q_id qs')"
  using assms
proof (induction qs arbitrary: st qs' st')
  case Nil
  then show ?case by simp
next
  case (Cons q qs)
  obtain q1 st1 where 1: "stampQuestion st q = (q1, st1)" by (cases "stampQuestion st q")
  obtain qs2 st2 where 2: "stampQuestions st1 qs = (qs2, st2)"
    by (cases "stampQuestions st1 qs")
  from Cons.prems(1) 1 2 have e: "qs' = q1 # qs2" "st' = st2" by simp_all
  note a = stampQuestion_id [OF 1]
  note b = stampQuestions_ids [OF 2]
  have sub: "{tick st1..} \<subseteq> {tick st..}" using a by auto
  have inj1: "inj_on (rand st1) {tick st1..}"
    using Cons.prems(3) a sub by (simp add: inj_on_subset)
  have fr1: "\<forall>k\<ge>tick st1. Some (rand st1 k) \<notin> set (map q_id qs)"
    using Cons.prems(4) a by auto
  have d1: "distinct (filter truthy (map q_id qs))"
    using Cons.prems(2) by (simp split: if_splits)
  have rest: "distinct (map q_id qs2)"
    by (rule Cons.IH [OF 2 d1 inj1 fr1])
  have "q_id q1 \<notin> set (map q_id qs2)"
  proof
    assume "q_id q1 \<in> set (map q_id qs2)"
    with b have "q_id q1 \<in> {i. i \<in> set (map q_id qs) \<and> truthy i} \<union>
                    {Some (rand st1 k) | k. tick st1 \<le> k \<and> k < tick st2}"
      by blast
    then show False
    proof
      assume in_qs: "q_id q1 \<in> {i. i \<in> set (map q_id qs) \<and> truthy i}"
      show False
      proof (cases "truthy (q_id q)")
        case True
        with a have "q_id q1 = q_id q" by simp
        with in_qs True Cons.prems(2) show False by simp
      next
        case False
        with a have "q_id q1 = Some (rand st (tick st))" by simp
        with in_qs Cons.prems(4) show False by auto
      qed
    next
      assume "q_id q1 \<in> {Some (rand st1 k) | k. tick st1 \<le> k \<and> k < tick st2}"
      then obtain k where k: "q_id q1 = Some (rand st k)" "tick st1 \<le> k"
        using a by auto
      show False
      proof (cases "truthy (q_id q)")
        case True
        with a have "q_id q1 = q_id q" by simp
        with k a Cons.prems(4) show False
          by (metis le_trans less_imp_le list.set_intros(1) list.simps(9))
      next
        case False
        with a have "q_id q1 = Some (rand st (tick st))" by simp
        with k have "rand st (tick st) = rand st k" by simp
        with Cons.prems(3) a k have "tick st = k"
          by (simp add: inj_on_def)
        with a k show False by simp
      qed
    qed
  qed
  with rest e show ?case by simp
qed

lemma writeBack_set:
  "length ys = length (filter P xs) \<Longrightarrow>
   set (writeBack P xs ys) \<subseteq> {x \<in> set xs. \<not> P x} \<union> set ys"
proof (induction xs arbitrary: ys)
  case Nil
  then show ?case by simp
next
  case (Cons x xs)
  show ?case
  proof (cases "P x")
    case True
    with Cons.prems obtain y ys' where ys: "ys = y # ys'" "length ys' = length (filter P xs)"
      by (cases ys) auto
    from Cons.IH [OF ys(2)] True ys(1) show ?thesis by auto
  next
    case False
    with Cons.prems have "length ys = length (filter P xs)" by simp
    from Cons.IH [OF this] False show ?thesis by auto
  qed
qed

lemma importQuestions_merge:
  assumes ok: "\<forall>n. writes st n = WriteOk"
    and m: "mergeQuestions opts"
    and d: "b_questions d = Some dqs"
  shows "\<exists>added st'.
     importQuestions st d opts =
       Some (length added,
             d\<lparr>b_questions :=
                 Some (writeBack (\<lambda>q. q_id q \<notin> set (map q_id (questions st))) dqs added)\<rparr>,
             st') \<and>
     questions st' = questions st @ added \<and>
     writes st' = writes st \<and>
     added = fst (stampQuestions st (filter (\<lambda>q. q_id q \<notin> set (map q_id (questions st))) dqs))"
proof -
  let ?P = "\<lambda>q. q_id q \<notin> set (map q_id (questions st))"
  obtain stamped st1 where s: "stampQuestions st (filter ?P dqs) = (stamped, st1)"
    by (cases "stampQuestions st (filter ?P dqs)")
  from stampQuestions_tick [OF s] obtain k where k: "st1 = st\<lparr>tick := k\<rparr>" by blast
  have w: "writes st1 (nwrites st1) = WriteOk" using ok by (simp add: k)
  have "importQuestions st d opts =
       Some (length stamped, d\<lparr>b_questions := Some (writeBack ?P dqs stamped)\<rparr>,
             stored (Questions (questions st @ stamped)) (written st1))"
    using m d s
    by (simp add: importQuestions_def getAllQuestions_def Let_def setItem_ok [OF w])
  moreover have "questions (stored (Questions (questions st @ stamped)) (written st1)) =
      questions st @ stamped"
    by (simp add: written_def)
  moreover have "writes (stored (Questions (questions st @ stamped)) (written st1)) = writes st"
    by (simp add: written_def k)
  moreover have "stamped = fst (stampQuestions st (filter ?P dqs))"
    by (simp add: s del: set_map)
  ultimately show ?thesis
    by blast
qed

lemma stampCollection_tick:
  "stampCollection st c = (c', st') \<Longrightarrow> \<exists>k. st' = st\<lparr>tick := k\<rparr>"
  by (auto simp: stampCollection_def generateId_def newDate_def Let_def split: if_splits)

lemma stampCollections_tick:
  "stampCollections st cs = (cs', st') \<Longrightarrow> \<exists>k. st' = st\<lparr>tick := k\<rparr>"
proof (induction cs arbitrary: st cs' st')
  case Nil
  then have "st' = st\<lparr>tick := tick st\<rparr>" by simp
  then show ?case by blast
next
  case (Cons c cs)
  obtain c1 st1 where 1: "stampCollection st c = (c1, st1)" by (cases "stampCollection st c")
  obtain cs2 st2 where 2: "stampCollections st1 cs = (cs2, st2)"
    by (cases "stampCollections st1 cs")
  from Cons.prems 1 2 have st': "st' = st2" by simp
  from stampCollection_tick [OF 1] obtain k1 where k1: "st1 = st\<lparr>tick := k1\<rparr>" by blast
  from Cons.IH [OF 2] obtain k2 where k2: "st2 = st1\<lparr>tick := k2\<rparr>" by blast
  have "st' = st\<lparr>tick := k2\<rparr>" by (simp add: st' k2 k1)
  then show ?case by blast
qed

text \<open>The later sections of an import succeed when the writes do, and leave the questions.\<close>

lemma importCollections_frame:
  assumes ok: "\<forall>n. writes st n = WriteOk"
  shows "\<exists>d' st'. importCollections st d opts = Some (d', st') \<and>
     b_questions d' = b_questions d \<and> questions st' = questions st \<and> writes st' = writes st"
proof (cases "b_collections d")
  case None
  then show ?thesis by (simp add: importCollections_def)
next
  case (Some dcs)
  show ?thesis
  proof (cases "mergeCollections opts")
    case False
    with Some show ?thesis by (simp add: importCollections_def)
  next
    case True
    let ?P = "\<lambda>c. c_id c \<notin> set (map c_id (collections st))"
    obtain stamped st1 where s: "stampCollections st (filter ?P dcs) = (stamped, st1)"
      by (cases "stampCollections st (filter ?P dcs)")
    from stampCollections_tick [OF s] obtain k where k: "st1 = st\<lparr>tick := k\<rparr>" by blast
    have w: "writes st1 (nwrites st1) = WriteOk" using ok by (simp add: k)
    have "importCollections st d opts =
        Some (d\<lparr>b_collections := Some (writeBack ?P dcs stamped)\<rparr>,
              stored (Collections (collections st @ stamped)) (written st1))"
      using Some True s
      by (simp add: importCollections_def getAllCollections_def Let_def setItem_ok [OF w])
    then show ?thesis
      by (simp add: written_def k)
  qed
qed

lemma importHistory_frame:
  assumes ok: "\<forall>n. writes st n = WriteOk"
  shows "\<exists>st'. importHistory st d opts = Some st' \<and>
     questions st' = questions st \<and> writes st' = writes st"
  using ok
  by (auto simp: importHistory_def Let_def setItem_ok written_def split: option.splits)

lemma importSettings_frame:
  assumes ok: "\<forall>n. writes st n = WriteOk"
  shows "\<exists>st'. importSettings st d opts = Some st' \<and>
     questions st' = questions st \<and> writes st' = writes st"
  using ok
  by (auto simp: importSettings_def Let_def setItem_ok written_def split: option.splits)

lemma logImport_frame:
  assumes ok: "\<forall>n. writes st n = WriteOk"
  shows "\<exists>st'. logImport st d n = Some st' \<and>
     questions st' = questions st \<and> writes st' = writes st"
  using ok
  by (simp add: logImport_def Let_def generateId_def newDate_def setItem_ok written_def)

lemma importData_merge:
  assumes ok: "\<forall>n. writes st n = WriteOk"
    and m: "mergeQuestions opts"
    and d: "b_questions d = Some dqs"
  shows "\<exists>added d' st'.
     importData st (Some d) opts = Some (ImportSuccess (length added), Some d', st') \<and>
     b_questions d' =
       Some (writeBack (\<lambda>q. q_id q \<notin> set (map q_id (questions st))) dqs added) \<and>
     questions st' = questions st @ added \<and>
     writes st' = writes st \<and>
     added = fst (stampQuestions st (filter (\<lambda>q. q_id q \<notin> set (map q_id (questions st))) dqs))"
proof -
  let ?P = "\<lambda>q. q_id q \<notin> set (map q_id (questions st))"
  from importQuestions_merge [OF ok m d] obtain added st1 where
    1: "importQuestions st d opts =
          Some (length added, d\<lparr>b_questions := Some (writeBack ?P dqs added)\<rparr>, st1)"
    and q1: "questions st1 = questions st @ added"
    and w1: "writes st1 = writes st"
    and a: "added = fst (stampQuestions st (filter ?P dqs))"
    by blast
  let ?d1 = "d\<lparr>b_questions := Some (writeBack ?P dqs added)\<rparr>"
  have ok1: "\<forall>n. writes st1 n = WriteOk" using ok w1 by simp
  from importCollections_frame [OF ok1, of ?d1 opts] obtain d2 st2 where
    2: "importCollections st1 ?d1 opts = Some (d2, st2)"
    and b2: "b_questions d2 = b_questions ?d1"
    and q2: "questions st2 = questions st1" and w2: "writes st2 = writes st1"
    by blast
  have ok2: "\<forall>n. writes st2 n = WriteOk" using ok1 w2 by simp
  from importHistory_frame [OF ok2, of d2 opts] obtain st3 where
    3: "importHistory st2 d2 opts = Some st3"
    and q3: "questions st3 = questions st2" and w3: "writes st3 = writes st2"
    by blast
  have ok3: "\<forall>n. writes st3 n = WriteOk" using ok2 w3 by simp
  from importSettings_frame [OF ok3, of d2 opts] obtain st4 where
    4: "importSettings st3 d2 opts = Some st4"
    and q4: "questions st4 = questions st3" and w4: "writes st4 = writes st3"
    by blast
  have ok4: "\<forall>n. writes st4 n = WriteOk" using ok3 w4 by simp
  from logImport_frame [OF ok4, of d2 "length added"] obtain st5 where
    5: "logImport st4 d2 (length added) = Some st5"
    and q5: "questions st5 = questions st4" and w5: "writes st5 = writes st4"
    by blast
  have "importData st (Some d) opts = Some (ImportSuccess (length added), Some d2, st5)"
    by (simp add: importData_def 1 2 3 4 5 del: set_map)
  moreover have "b_questions d2 = Some (writeBack ?P dqs added)" using b2 by simp
  moreover have "questions st5 = questions st @ added" by (simp add: q5 q4 q3 q2 q1)
  moreover have "writes st5 = writes st" by (simp add: w5 w4 w3 w2 w1)
  ultimately show ?thesis using a by blast
qed

text \<open>
  C4, as stated: no duplicate ids ever appear. The merge compares the imported ids with
  the stored ones only, so two imported records of one id are both added.
\<close>

theorem import_adds_duplicate_ids:
  "\<exists>res d' st'. importData fresh_store (Some twins) default_options = Some (res, d', st') \<and>
       \<not> distinct (map q_id (questions st'))"
  by (simp add: importData_def importQuestions_def importCollections_def importHistory_def
      importSettings_def logImport_def default_options_def twins_def capital_question_def
      fresh_store_def getAllQuestions_def stampQuestion_def truthy_def generateId_def
      newDate_def setItem_ok written_def Let_def)

text \<open>
  C4, amended: with \<open>mergeQuestions\<close> set and the writes succeeding, an import appends
  to the stored questions exactly the imported records whose id is not yet stored, in
  their order, each stamped (\<open>stamped_from\<close>); importing the same export data again, as
  the first import left it with the given ids written into it, adds nothing and leaves
  the question set as it is. The stored ids are free of duplicates afterwards when they
  were before, the ids that the imported records carry are pairwise distinct, and the
  generated ids are fresh (\<open>fresh_ids\<close>).
\<close>

theorem import_merge_idempotent:
  assumes ok: "\<forall>n. writes st n = WriteOk"
    and m: "mergeQuestions opts"
    and d: "b_questions d = Some dqs"
  shows "\<exists>added d' st'.
     importData st (Some d) opts = Some (ImportSuccess (length added), Some d', st') \<and>
     questions st' = questions st @ added \<and>
     list_all2 stamped_from added
       (filter (\<lambda>q. q_id q \<notin> set (map q_id (questions st))) dqs) \<and>
     (\<exists>d'' st''. importData st' (Some d') opts = Some (ImportSuccess 0, Some d'', st'') \<and>
                 questions st'' = questions st') \<and>
     (distinct (map q_id (questions st)) \<and> distinct (filter truthy (map q_id dqs)) \<and>
      fresh_ids st dqs \<longrightarrow> distinct (map q_id (questions st')))"
proof -
  let ?P = "\<lambda>q. q_id q \<notin> set (map q_id (questions st))"
  from importData_merge [OF ok m d] obtain added d' st' where
    1: "importData st (Some d) opts = Some (ImportSuccess (length added), Some d', st')"
    and b: "b_questions d' = Some (writeBack ?P dqs added)"
    and q: "questions st' = questions st @ added"
    and w: "writes st' = writes st"
    and s: "added = fst (stampQuestions st (filter ?P dqs))"
    by blast
  obtain st1 where s1: "stampQuestions st (filter ?P dqs) = (added, st1)"
    using s by (cases "stampQuestions st (filter ?P dqs)") simp
  have a: "list_all2 stamped_from added (filter ?P dqs)"
    by (rule stampQuestions_stamped [OF s1])
  have ok': "\<forall>n. writes st' n = WriteOk" using ok w by simp
  from importData_merge [OF ok' m b] obtain added2 d'' st'' where
    2: "importData st' (Some d') opts = Some (ImportSuccess (length added2), Some d'', st'')"
    and q2: "questions st'' = questions st' @ added2"
    and a2: "added2 = fst (stampQuestions st'
               (filter (\<lambda>q. q_id q \<notin> set (map q_id (questions st')))
                  (writeBack ?P dqs added)))"
    by blast
  have len: "length added = length (filter ?P dqs)"
    using a by (rule list_all2_lengthD)
  have "\<forall>x\<in>set (writeBack ?P dqs added). q_id x \<in> set (map q_id (questions st'))"
    using writeBack_set [OF len] by (auto simp: q)
  then have "filter (\<lambda>q. q_id q \<notin> set (map q_id (questions st')))
               (writeBack ?P dqs added) = []"
    by (simp add: filter_empty_conv del: set_map)
  with a2 have e: "added2 = []" by simp
  have second: "\<exists>d'' st''.
      importData st' (Some d') opts = Some (ImportSuccess 0, Some d'', st'') \<and>
      questions st'' = questions st'"
    using 2 q2 e by simp
  have dist: "distinct (map q_id (questions st'))"
    if h: "distinct (map q_id (questions st)) \<and> distinct (filter truthy (map q_id dqs)) \<and>
           fresh_ids st dqs"
  proof -
    from h have inj: "inj_on (rand st) {tick st..}"
      and fresh: "\<forall>k\<ge>tick st. Some (rand st k) \<notin> set (map q_id (questions st)) \<union>
                                                     set (map q_id dqs)"
      by (simp_all add: fresh_ids_def)
    from h have "distinct (map q_id (filter (\<lambda>q. truthy (q_id q)) dqs))"
      by (simp add: filter_map comp_def)
    then have "distinct (map q_id (filter ?P (filter (\<lambda>q. truthy (q_id q)) dqs)))"
      by (rule distinct_map_filter)
    then have dt: "distinct (filter truthy (map q_id (filter ?P dqs)))"
      by (simp add: filter_map comp_def conj_commute)
    have fr: "\<forall>k\<ge>tick st. Some (rand st k) \<notin> set (map q_id (filter ?P dqs))"
      using fresh by auto
    have da: "distinct (map q_id added)"
      by (rule stampQuestions_distinct [OF s1 dt inj fr])
    have "set (map q_id added) \<subseteq>
        {i. i \<in> set (map q_id (filter ?P dqs)) \<and> truthy i} \<union>
        {Some (rand st k) | k. tick st \<le> k \<and> k < tick st1}"
      using stampQuestions_ids [OF s1] by blast
    moreover have "{i. i \<in> set (map q_id (filter ?P dqs)) \<and> truthy i} \<inter>
        set (map q_id (questions st)) = {}"
      by (fastforce simp: image_iff)
    moreover have "{Some (rand st k) | k. tick st \<le> k \<and> k < tick st1} \<inter>
        set (map q_id (questions st)) = {}"
    proof -
      have "Some (rand st k) \<notin> set (map q_id (questions st))" if "tick st \<le> k" for k
        using fresh that by simp
      then show ?thesis by blast
    qed
    ultimately have "set (map q_id (questions st)) \<inter> set (map q_id added) = {}"
      by blast
    with h da show ?thesis
      by (simp add: q del: set_map)
  qed
  from 1 q a second dist show ?thesis by blast
qed

lemma first_import_mixed:
  "\<exists>d' st'. importData one_question_store (Some mixed) default_options =
              Some (ImportSuccess 2, d', st') \<and>
            map q_id (questions st') = [Some ''q1'', Some ''q2'', Some ''idx'']"
  by (simp add: importData_def importQuestions_def importCollections_def importHistory_def
      importSettings_def logImport_def default_options_def mixed_def capital_question_def
      one_question_store_def fresh_store_def getAllQuestions_def stampQuestion_def truthy_def
      generateId_def newDate_def setItem_ok written_def Let_def)

theorem import_merge_idempotent_witness:
  "\<exists>added d' st'.
      importData one_question_store (Some mixed) default_options =
        Some (ImportSuccess (length added), Some d', st') \<and>
      questions st' = questions one_question_store @ added \<and>
      map q_id (questions st') = [Some ''q1'', Some ''q2'', Some ''idx''] \<and>
      (\<exists>d'' st''. importData st' (Some d') default_options =
                    Some (ImportSuccess 0, Some d'', st'') \<and>
                  questions st'' = questions st') \<and>
      distinct (map q_id (questions st'))"
proof -
  let ?dqs = "[capital_question,
        capital_question\<lparr>q_id := Some ''q2'', q_text := ''Capital of Peru?''\<rparr>,
        capital_question\<lparr>q_id := None, q_text := ''Capital of Chile?''\<rparr>]"
  have ok: "\<forall>n. writes one_question_store n = WriteOk"
    by (simp add: one_question_store_def fresh_store_def)
  have m: "mergeQuestions default_options" by (simp add: default_options_def)
  have d: "b_questions mixed = Some ?dqs"
    by (simp add: mixed_def)
  have h1: "distinct (map q_id (questions one_question_store))"
    by (simp add: one_question_store_def)
  have h2: "distinct (filter truthy (map q_id ?dqs))"
    by (simp add: capital_question_def truthy_def)
  have h3: "fresh_ids one_question_store ?dqs"
    by (simp add: fresh_ids_def one_question_store_def fresh_store_def capital_question_def
        inj_on_def)
  from import_merge_idempotent [OF ok m d] obtain added d' st' where
    1: "importData one_question_store (Some mixed) default_options =
          Some (ImportSuccess (length added), Some d', st')"
    and 2: "questions st' = questions one_question_store @ added"
    and 3: "\<exists>d'' st''. importData st' (Some d') default_options =
                        Some (ImportSuccess 0, Some d'', st'') \<and>
                      questions st'' = questions st'"
    and 4: "distinct (map q_id (questions one_question_store)) \<and>
            distinct (filter truthy (map q_id ?dqs)) \<and>
            fresh_ids one_question_store ?dqs \<longrightarrow> distinct (map q_id (questions st'))"
    by (elim exE, elim conjE) (rule that)
  from first_import_mixed obtain e t where
    f: "importData one_question_store (Some mixed) default_options =
          Some (ImportSuccess 2, e, t)"
    and ids: "map q_id (questions t) = [Some ''q1'', Some ''q2'', Some ''idx'']"
    by (elim exE conjE) (rule that)
  from 1 f have "t = st'" by simp
  with ids have i: "map q_id (questions st') = [Some ''q1'', Some ''q2'', Some ''idx'']"
    by simp
  from 4 h1 h2 h3 have dst: "distinct (map q_id (questions st'))" by blast
  from 1 2 i 3 dst show ?thesis
    by - ((rule exI)+, intro conjI)
qed

text \<open>
  An untouched copy of export data is another matter: a record without an id gets a new
  id at every import, so importing the copy again stores the record a second time.
\<close>

lemma import_untouched_copy_again:
  "\<exists>r1 d1 st1 r2 d2 st2.
     importData fresh_store (Some anonymous) default_options = Some (r1, d1, st1) \<and>
     importData st1 (Some anonymous) default_options = Some (r2, d2, st2) \<and>
     map q_id (questions st1) = [Some ''id''] \<and>
     map q_id (questions st2) = [Some ''id'', Some ''idxxxx'']"
  by (simp add: importData_def importQuestions_def importCollections_def importHistory_def
      importSettings_def logImport_def default_options_def anonymous_def capital_question_def
      fresh_store_def getAllQuestions_def stampQuestion_def truthy_def generateId_def
      newDate_def setItem_ok written_def Let_def)

section \<open>The network-first strategy\<close>

lemma cache_put_match:
  assumes "rs_status r \<noteq> 206" and "''*'' \<notin> set (rs_vary r)" and "pf_accepts env request r"
  shows "cache_match (cache_put env request r c) request = Some r"
proof -
  have "map_of (filter (\<lambda>(u, x). u \<noteq> rq_url request) c) (rq_url request) = None"
    by (auto simp: map_of_eq_None_iff)
  then show ?thesis
    using assms by (simp add: cache_match_def cache_put_def map_add_def)
qed

lemma cache_put_refused:
  "rs_status r = 206 \<or> ''*'' \<in> set (rs_vary r) \<or> \<not> pf_accepts env request r \<Longrightarrow>
   cache_put env request r c = c"
  by (simp add: cache_put_def)

lemma map_of_update_named:
  "map_of (map (\<lambda>(n, c). if n = name then (n, f c) else (n, c)) cs) name =
   map_option f (map_of cs name)"
  by (induction cs) auto

lemma caches_open_has: "\<exists>c. map_of (caches_open name cs) name = Some c"
proof (cases "name \<in> set (caches_keys cs)")
  case True
  then show ?thesis
    by (auto simp: caches_open_def caches_keys_def dest!: weak_map_of_SomeI)
next
  case False
  then have "map_of cs name = None"
    by (simp add: caches_keys_def map_of_eq_None_iff)
  with False show ?thesis
    by (simp add: caches_open_def map_add_def)
qed

lemma caches_put_stored:
  assumes "rs_status r \<noteq> 206" and "''*'' \<notin> set (rs_vary r)" and "pf_accepts env request r"
  shows "\<exists>c. map_of (caches_put env name request r cs) name = Some c \<and>
             cache_match c request = Some r"
proof -
  obtain c where "map_of (caches_open name cs) name = Some c"
    using caches_open_has by blast
  then show ?thesis
    by (simp add: caches_put_def map_of_update_named cache_put_match [OF assms])
qed

lemma caches_put_refused:
  assumes "rs_status r = 206 \<or> ''*'' \<in> set (rs_vary r) \<or> \<not> pf_accepts env request r"
  shows "caches_put env name request r cs = caches_open name cs"
proof -
  have "map (\<lambda>(n, c). if n = name then (n, cache_put env request r c) else (n, c)) xs = xs"
    for xs :: caches
    by (induction xs) (auto simp: cache_put_refused [OF assms])
  then show ?thesis
    by (simp add: caches_put_def)
qed

text \<open>
  The awaited \<^verbatim>\<open>caches.open\<close> stands inside the \<^verbatim>\<open>try\<close>: when it rejects, a response
  that the network has delivered is dropped, and the request is answered as if the
  network had failed.
\<close>

lemma networkFirst_open_rejected:
  assumes "pf_fetch env request = Resolved n" and "rs_ok n"
    and "\<not> pf_opens env DYNAMIC_CACHE_NAME"
  shows "networkFirst cs env request =
     (case caches_match cs request of
        Some cached \<Rightarrow> (cached, cs)
      | None \<Rightarrow> (offline_unavailable, cs))"
  using assms by (simp add: networkFirst_def)

text \<open>
  C8, as stated: a copy of the network's response lies in the dynamic cache whenever its
  status is 2xx. A partial response has status 206, and the cache refuses it: the
  response is returned, and the dynamic cache, opened for it, holds no copy.
\<close>

theorem networkFirst_partial_response_not_stored:
  "rs_ok partial_content \<and>
   onFetch [] (answering partial_content) video_request =
     Some (Some partial_content, [(DYNAMIC_CACHE_NAME, [])]) \<and>
   caches_match [(DYNAMIC_CACHE_NAME, [])] video_request = None"
  by (simp add: onFetch_def networkFirst_def caches_put_def caches_open_def caches_keys_def
      cache_put_def cache_match_def answering_def video_request_def partial_content_def
      rs_ok_def NETWORK_ONLY_def STATIC_FILES_def DYNAMIC_FILES_def suffix_def)

text \<open>
  C8, amended: a GET request over http(s) whose path matches no always-network prefix
  and no static file, and starts with a dynamic prefix, is answered by \<open>networkFirst\<close>.
  When the fetch resolves, and the dynamic cache can be opened if the status is 2xx, the
  answer is the network's response; a copy of a 2xx response then lies in the dynamic
  cache unless the response is partial (206), varies on \<^verbatim>\<open>*\<close> or finds no room, in
  which case the cache is opened and nothing is stored; a response of another status
  leaves the caches untouched. When the fetch fails, the answer is the cached response
  if there is one, and the synthesized 503 only if there is none.
\<close>

theorem networkFirst_for_dynamic_requests:
  assumes "rq_method request = ''GET''"
    and "prefix ''http'' (u_protocol (rq_url request))"
    and "\<not> list_ex (\<lambda>pattern. prefix pattern (u_pathname (rq_url request))) NETWORK_ONLY"
    and "\<not> list_ex (\<lambda>file. u_pathname (rq_url request) = file \<or>
                           suffix file (u_pathname (rq_url request))) STATIC_FILES"
    and "list_ex (\<lambda>pattern. prefix pattern (u_pathname (rq_url request))) DYNAMIC_FILES"
  shows "\<exists>r cs'. onFetch cs env request = Some (Some r, cs') \<and>
     (\<forall>n. pf_fetch env request = Resolved n \<and>
           (rs_ok n \<longrightarrow> pf_opens env DYNAMIC_CACHE_NAME) \<longrightarrow>
        r = n \<and>
        (if rs_ok n
         then (if rs_status n \<noteq> 206 \<and> ''*'' \<notin> set (rs_vary n) \<and> pf_accepts env request n
               then \<exists>c. map_of cs' DYNAMIC_CACHE_NAME = Some c \<and>
                        cache_match c request = Some n
               else cs' = caches_open DYNAMIC_CACHE_NAME cs)
         else cs' = cs)) \<and>
     (pf_fetch env request = Rejected \<longrightarrow>
        cs' = cs \<and>
        (case caches_match cs request of
           Some cached \<Rightarrow> r = cached
         | None \<Rightarrow> r = offline_unavailable))"
proof (cases "pf_fetch env request")
  case (Resolved n)
  show ?thesis
  proof (cases "rs_ok n")
    case False
    with Resolved assms show ?thesis
      by (simp add: onFetch_def networkFirst_def)
  next
    case ok: True
    show ?thesis
    proof (cases "pf_opens env DYNAMIC_CACHE_NAME")
      case False
      with Resolved ok assms show ?thesis
        by (simp add: onFetch_def networkFirst_def split: option.splits)
    next
      case True
      show ?thesis
      proof (cases "rs_status n \<noteq> 206 \<and> ''*'' \<notin> set (rs_vary n) \<and> pf_accepts env request n")
        case storable: True
        then have "\<exists>c. map_of (caches_put env DYNAMIC_CACHE_NAME request n cs)
                         DYNAMIC_CACHE_NAME = Some c \<and> cache_match c request = Some n"
          by (simp add: caches_put_stored)
        with Resolved ok True storable assms show ?thesis
          by (simp add: onFetch_def networkFirst_def)
      next
        case False
        then have "caches_put env DYNAMIC_CACHE_NAME request n cs =
                   caches_open DYNAMIC_CACHE_NAME cs"
          by (intro caches_put_refused) blast
        with Resolved ok True False assms show ?thesis
          by (auto simp add: onFetch_def networkFirst_def)
      qed
    qed
  qed
next
  case Rejected
  with assms show ?thesis
    by (simp add: onFetch_def networkFirst_def split: option.splits)
qed

theorem networkFirst_for_dynamic_requests_witness:
  "onFetch warm_caches offline_platform api_request =
     Some (Some cached_questions, warm_caches) \<and>
   (\<exists>cs' c. onFetch warm_caches (answering new_questions) api_request =
              Some (Some new_questions, cs') \<and>
            map_of cs' DYNAMIC_CACHE_NAME = Some c \<and>
            cache_match c api_request = Some new_questions)"
proof -
  have 1: "rq_method api_request = ''GET''" by (simp add: api_request_def)
  have 2: "prefix ''http'' (u_protocol (rq_url api_request))" by (simp add: api_request_def)
  have 3: "\<not> list_ex (\<lambda>pattern. prefix pattern (u_pathname (rq_url api_request))) NETWORK_ONLY"
    by (simp add: api_request_def NETWORK_ONLY_def)
  have 4: "\<not> list_ex (\<lambda>file. u_pathname (rq_url api_request) = file \<or>
                            suffix file (u_pathname (rq_url api_request))) STATIC_FILES"
    by (simp add: api_request_def STATIC_FILES_def suffix_def)
  have 5: "list_ex (\<lambda>pattern. prefix pattern (u_pathname (rq_url api_request))) DYNAMIC_FILES"
    by (simp add: api_request_def DYNAMIC_FILES_def)
  have 6: "caches_match warm_caches api_request = Some cached_questions"
    by (simp add: warm_caches_def cache_match_def)
  have down: "pf_fetch offline_platform api_request = Rejected"
    by (simp add: offline_platform_def)
  have up: "pf_fetch (answering new_questions) api_request = Resolved new_questions \<and>
      (rs_ok new_questions \<longrightarrow> pf_opens (answering new_questions) DYNAMIC_CACHE_NAME)"
    by (simp add: answering_def)
  have st: "rs_ok new_questions" "rs_status new_questions \<noteq> 206"
    "''*'' \<notin> set (rs_vary new_questions)"
    "pf_accepts (answering new_questions) api_request new_questions"
    by (simp_all add: new_questions_def rs_ok_def answering_def)
  from networkFirst_for_dynamic_requests [OF 1 2 3 4 5, of warm_caches offline_platform]
    6 down
  have a: "onFetch warm_caches offline_platform api_request =
             Some (Some cached_questions, warm_caches)"
    by auto
  from networkFirst_for_dynamic_requests
    [OF 1 2 3 4 5, of warm_caches "answering new_questions"]
  obtain r cs' where
    f: "onFetch warm_caches (answering new_questions) api_request = Some (Some r, cs')"
    and g: "\<forall>n. pf_fetch (answering new_questions) api_request = Resolved n \<and>
           (rs_ok n \<longrightarrow> pf_opens (answering new_questions) DYNAMIC_CACHE_NAME) \<longrightarrow>
        r = n \<and>
        (if rs_ok n
         then (if rs_status n \<noteq> 206 \<and> ''*'' \<notin> set (rs_vary n) \<and>
                  pf_accepts (answering new_questions) api_request n
               then \<exists>c. map_of cs' DYNAMIC_CACHE_NAME = Some c \<and>
                        cache_match c api_request = Some n
               else cs' = caches_open DYNAMIC_CACHE_NAME warm_caches)
         else cs' = warm_caches)"
    by (elim exE, elim conjE) (rule that)
  from g up st have "r = new_questions \<and>
      (\<exists>c. map_of cs' DYNAMIC_CACHE_NAME = Some c \<and>
           cache_match c api_request = Some new_questions)"
    by (metis (full_types))
  with f have b: "\<exists>cs' c. onFetch warm_caches (answering new_questions) api_request =
              Some (Some new_questions, cs') \<and>
            map_of cs' DYNAMIC_CACHE_NAME = Some c \<and>
            cache_match c api_request = Some new_questions"
    by blast
  from a b show ?thesis by (rule conjI)
qed

end
